theory Spec2Isabelle
  imports Complex_Main "HOL-Library.Log_Nat"
begin

section \<open>JavaScript numbers\<close>

text \<open>
  A JavaScript \<^verbatim>\<open>number\<close> is an IEEE 754 binary64 value.  A finite value other than
  the negative zero is kept as the real number it denotes, so \<open>Fin 0\<close> is the positive
  zero; the negative zero \<^verbatim>\<open>-0\<close>, the two infinities and NaN are separate constructors.
  The comparisons \<^verbatim>\<open>===\<close> and \<^verbatim>\<open><\<close> do not tell the two zeros apart, a division by
  zero does.
\<close>

datatype number = Fin real | NegZero | PosInf | NegInf | NaN

text \<open>Round to the nearest integer, ties to the even one.\<close>

definition rne :: "real \<Rightarrow> int" where
  "rne x = (let f = \<lfloor>x\<rfloor>; d = x - of_int f
            in if d < 1 / 2 then f
               else if 1 / 2 < d then f + 1
               else if even f then f else f + 1)"

text \<open>
  The binary exponent \<open>\<lfloor>log\<^sub>2 x\<rfloor>\<close> of a positive real, from the bit length
  of an integer beside it (\<open>floorlog 2 n\<close> is the number of binary digits of \<open>n\<close>).
\<close>

definition ilog2 :: "real \<Rightarrow> int" where
  "ilog2 x = (if 1 \<le> x then int (floorlog 2 (nat \<lfloor>x\<rfloor>)) - 1
              else - int (floorlog 2 (nat (\<lceil>1 / x\<rceil> - 1))))"

text \<open>
  Rounding of an exact result to binary64, round-to-nearest, ties-to-even: 53 significant
  bits, least normal exponent \<open>-1022\<close> (below it the spacing stays \<open>2 powi -1074\<close>), and
  overflow to an infinity once the rounded magnitude reaches \<open>2 ^ 1024\<close>.  An exact zero
  is the positive zero; a negative result that rounds to zero is the negative zero.
\<close>

definition round_double :: "real \<Rightarrow> number" where
  "round_double x =
     (if x = 0 then Fin 0
      else let e = max (ilog2 \<bar>x\<bar>) (- 1022);
               q = 2 powi (e - 52);
               y = of_int (rne (x / q)) * q
           in if 2 ^ 1024 \<le> \<bar>y\<bar> then (if 0 < x then PosInf else NegInf)
              else if y = 0 \<and> x < 0 then NegZero
              else Fin y)"

text \<open>A real number that is a binary64 value.\<close>

definition is_double :: "real \<Rightarrow> bool" where
  "is_double x \<longleftrightarrow> round_double x = Fin x"

text \<open>
  The arithmetic operators \<^verbatim>\<open>+\<close>, \<^verbatim>\<open>-\<close>, \<^verbatim>\<open>*\<close>, \<^verbatim>\<open>/\<close> on numbers.  The sum of two
  zeros is the negative zero only if both are; a product or quotient that is zero has the
  product of the signs of its operands as its sign; \<^verbatim>\<open>x - y\<close> is \<^verbatim>\<open>x + (-y)\<close>.
\<close>

fun num_neg :: "number \<Rightarrow> number" where
  "num_neg (Fin a) = (if a = 0 then NegZero else Fin (- a))"
| "num_neg NegZero = Fin 0"
| "num_neg PosInf = NegInf"
| "num_neg NegInf = PosInf"
| "num_neg NaN = NaN"

fun num_add :: "number \<Rightarrow> number \<Rightarrow> number" where
  "num_add (Fin a) (Fin b) = round_double (a + b)"
| "num_add (Fin a) NegZero = round_double a"
| "num_add NegZero (Fin b) = round_double b"
| "num_add NegZero NegZero = NegZero"
| "num_add NaN _ = NaN"
| "num_add _ NaN = NaN"
| "num_add PosInf NegInf = NaN"
| "num_add NegInf PosInf = NaN"
| "num_add PosInf _ = PosInf"
| "num_add NegInf _ = NegInf"
| "num_add _ PosInf = PosInf"
| "num_add _ NegInf = NegInf"

definition num_sub :: "number \<Rightarrow> number \<Rightarrow> number" where
  "num_sub x y = num_add x (num_neg y)"

text \<open>The sign of a number that is not NaN: \<open>-1\<close>, \<open>0\<close> (for both zeros) or \<open>1\<close>.\<close>

fun num_sgn :: "number \<Rightarrow> int" where
  "num_sgn (Fin a) = (if a < 0 then - 1 else if a = 0 then 0 else 1)"
| "num_sgn NegZero = 0"
| "num_sgn PosInf = 1"
| "num_sgn NegInf = - 1"
| "num_sgn NaN = 0"

fun num_mul :: "number \<Rightarrow> number \<Rightarrow> number" where
  "num_mul (Fin a) (Fin b) =
     (if a * b = 0 then (if a < 0 \<or> b < 0 then NegZero else Fin 0)
      else round_double (a * b))"
| "num_mul (Fin a) NegZero = (if a < 0 then Fin 0 else NegZero)"
| "num_mul NegZero (Fin b) = (if b < 0 then Fin 0 else NegZero)"
| "num_mul NegZero NegZero = Fin 0"
| "num_mul NaN _ = NaN"
| "num_mul _ NaN = NaN"
| "num_mul x y =
     (if num_sgn x * num_sgn y = 0 then NaN
      else if 0 < num_sgn x * num_sgn y then PosInf else NegInf)"

fun num_div :: "number \<Rightarrow> number \<Rightarrow> number" where
  "num_div NaN _ = NaN"
| "num_div _ NaN = NaN"
| "num_div (Fin a) (Fin b) =
     (if b = 0 then (if a = 0 then NaN else if 0 < a then PosInf else NegInf)
      else if a = 0 then (if b < 0 then NegZero else Fin 0)
      else round_double (a / b))"
| "num_div (Fin a) NegZero = (if a = 0 then NaN else if 0 < a then NegInf else PosInf)"
| "num_div NegZero (Fin b) = (if b = 0 then NaN else if b < 0 then Fin 0 else NegZero)"
| "num_div NegZero NegZero = NaN"
| "num_div (Fin a) PosInf = (if a < 0 then NegZero else Fin 0)"
| "num_div (Fin a) NegInf = (if a < 0 then Fin 0 else NegZero)"
| "num_div NegZero PosInf = NegZero"
| "num_div NegZero NegInf = Fin 0"
| "num_div PosInf (Fin b) = (if b < 0 then NegInf else PosInf)"
| "num_div PosInf NegZero = NegInf"
| "num_div NegInf (Fin b) = (if b < 0 then PosInf else NegInf)"
| "num_div NegInf NegZero = PosInf"
| "num_div _ _ = NaN"

text \<open>The comparison \<^verbatim>\<open><\<close>: false as soon as one side is NaN; \<^verbatim>\<open>-0 < 0\<close> is false.\<close>

fun num_lt :: "number \<Rightarrow> number \<Rightarrow> bool" where
  "num_lt (Fin a) (Fin b) = (a < b)"
| "num_lt (Fin a) NegZero = (a < 0)"
| "num_lt NegZero (Fin b) = (0 < b)"
| "num_lt NegZero NegZero = False"
| "num_lt NaN _ = False"
| "num_lt _ NaN = False"
| "num_lt NegInf y = (y \<noteq> NegInf)"
| "num_lt x PosInf = (x \<noteq> PosInf)"
| "num_lt _ _ = False"

text \<open>
  Strict equality \<^verbatim>\<open>===\<close> of two numbers: NaN equals nothing, and the two zeros are
  equal.
\<close>

definition is_zero :: "number \<Rightarrow> bool" where
  "is_zero x \<longleftrightarrow> x = Fin 0 \<or> x = NegZero"

definition num_eq :: "number \<Rightarrow> number \<Rightarrow> bool" where
  "num_eq x y \<longleftrightarrow> x \<noteq> NaN \<and> (x = y \<or> (is_zero x \<and> is_zero y))"

text \<open>The real number a finite number denotes (\<open>0\<close> for both zeros).\<close>

fun num_real :: "number \<Rightarrow> real" where
  "num_real (Fin a) = a"
| "num_real _ = 0"

text \<open>\<^verbatim>\<open>Number.isFinite\<close>.\<close>

fun isFinite :: "number \<Rightarrow> bool" where
  "isFinite (Fin _) = True"
| "isFinite NegZero = True"
| "isFinite _ = False"

section \<open>Errors\<close>

text \<open>
  The exceptions of the source as values.  \<open>TypeError\<close> and \<open>RangeError\<close> are the
  JavaScript classes the source throws itself; \<open>DomainError\<close> stands for the failure of
  an \<^verbatim>\<open>xjs.Number.assertType\<close> assertion of the extrajs library, and
  \<open>DimensionError\<close> for the dimension mismatch of a matrix product.
\<close>

datatype error = TypeError | RangeError | DomainError | DimensionError

section \<open>Percentage\<close>

text \<open>
  \<^verbatim>\<open>xjs.Number.assertType(num, type)\<close> of the extrajs library, for the two types the
  source asks for: it returns nothing when the number is of the type and throws otherwise
  (NaN is of no type).
\<close>

datatype numtype = NonNegative | Finite

fun assertType :: "number \<Rightarrow> numtype \<Rightarrow> error + unit" where
  "assertType NaN _ = Inl DomainError"
| "assertType p NonNegative = (if num_lt p (Fin 0) then Inl DomainError else Inr ())"
| "assertType p Finite = (if isFinite p then Inr () else Inl DomainError)"

text \<open>
  \<^verbatim>\<open>class Percentage extends Number\<close>: the object wraps one number, read by
  \<^verbatim>\<open>valueOf()\<close>.
\<close>

datatype Percentage = Percentage (valueOf: number)

text \<open>
  The constructor \<^verbatim>\<open>new Percentage(p)\<close>; its argument is a number (a Percentage argument
  is first unwrapped by \<^verbatim>\<open>p.valueOf()\<close>).
\<close>

definition new_Percentage :: "number \<Rightarrow> error + Percentage" where
  "new_Percentage p =
     (case assertType p NonNegative of
        Inl e \<Rightarrow> Inl e
      | Inr _ \<Rightarrow>
          (case assertType p Finite of
             Inl e \<Rightarrow> Inl e
           | Inr _ \<Rightarrow> Inr (Percentage p)))"

text \<open>
  The static fields \<^verbatim>\<open>MULT_IDEN = new Percentage(1)\<close> and
  \<^verbatim>\<open>MULT_ABSORB = new Percentage()\<close> (the argument defaults to \<open>0\<close>).
\<close>

definition MULT_IDEN :: Percentage where
  "MULT_IDEN = Percentage (Fin 1)"

definition MULT_ABSORB :: Percentage where
  "MULT_ABSORB = Percentage (Fin 0)"

definition Percentage_conjugate :: "Percentage \<Rightarrow> error + Percentage" where
  "Percentage_conjugate this =
     (if num_lt (valueOf this) (Fin 0) \<or> num_lt (Fin 1) (valueOf this) then Inl RangeError
      else new_Percentage (num_sub (Fin 1) (valueOf this)))"

definition Percentage_reciprocal :: "Percentage \<Rightarrow> error + Percentage" where
  "Percentage_reciprocal this = new_Percentage (num_div (valueOf MULT_IDEN) (valueOf this))"

text \<open>
  The getters \<^verbatim>\<open>conjugate\<close> and \<^verbatim>\<open>reciprocal\<close> above, and
  \<^verbatim>\<open>equals(pct)\<close> for a Percentage argument: the same object, or
  \<^verbatim>\<open>this.valueOf() === pct.valueOf()\<close>.  No Percentage holds NaN, so the same object
  always has a value equal to itself and the first disjunct adds nothing.
\<close>

definition Percentage_equals :: "Percentage \<Rightarrow> Percentage \<Rightarrow> bool" where
  "Percentage_equals this pct \<longleftrightarrow> num_eq (valueOf this) (valueOf pct)"

section \<open>Arrays\<close>

text \<open>
  A slot of a JavaScript array typed \<^verbatim>\<open>number[]\<close>: a number, the value
  \<^verbatim>\<open>undefined\<close>, or a hole (an index below \<^verbatim>\<open>length\<close> with no element, as
  left by \<^verbatim>\<open>row.length = n\<close> on a shorter array).  \<^verbatim>\<open>map\<close>, \<^verbatim>\<open>forEach\<close> and
  \<^verbatim>\<open>reduce\<close> skip holes; reading a hole yields \<^verbatim>\<open>undefined\<close>.
\<close>

datatype cell = Hole | Undef | Num number

type_synonym row = "cell list"

text \<open>
  Strict equality \<^verbatim>\<open>===\<close> of two values read from such an array (a read never yields a
  hole).
\<close>

fun strict_eq :: "cell \<Rightarrow> cell \<Rightarrow> bool" where
  "strict_eq (Num x) (Num y) = num_eq x y"
| "strict_eq Undef Undef = True"
| "strict_eq _ _ = False"

text \<open>The numeric value of an operand of \<^verbatim>\<open>*\<close>, \<^verbatim>\<open>/\<close> or \<^verbatim>\<open>+\<close>: \<^verbatim>\<open>undefined\<close> is NaN.\<close>

fun ToNumber :: "cell \<Rightarrow> number" where
  "ToNumber (Num x) = x"
| "ToNumber _ = NaN"

text \<open>The read \<^verbatim>\<open>row[j]\<close>: \<^verbatim>\<open>undefined\<close> at a hole and past the end.\<close>

definition get :: "row \<Rightarrow> nat \<Rightarrow> cell" where
  "get row j = (if j < length row then (case row ! j of Hole \<Rightarrow> Undef | c \<Rightarrow> c) else Undef)"

text \<open>The copy \<^verbatim>\<open>[...row]\<close>: the iterator reads every index, so holes become \<^verbatim>\<open>undefined\<close>.\<close>

definition spread :: "row \<Rightarrow> row" where
  "spread row = map (\<lambda>c. case c of Hole \<Rightarrow> Undef | _ \<Rightarrow> c) row"

text \<open>The assignment \<^verbatim>\<open>row.length = n\<close>: cuts the array or extends it with holes.\<close>

definition set_length :: "nat \<Rightarrow> row \<Rightarrow> row" where
  "set_length n row = take n row @ replicate (n - length row) Hole"

text \<open>
  \<^verbatim>\<open>xjs.Array.fillHoles(arr, value)\<close> of the extrajs library: a copy of the array in which
  every hole and every \<^verbatim>\<open>undefined\<close> is replaced by the value; the argument is not changed.
\<close>

definition fillHoles :: "row \<Rightarrow> cell \<Rightarrow> row" where
  "fillHoles arr v = map (\<lambda>c. case c of Num x \<Rightarrow> Num x | _ \<Rightarrow> v) arr"

text \<open>
  \<^verbatim>\<open>arr.map((x, i) => f(x, i))\<close> where the callback may throw: the first exception ends
  the loop.  \<open>mapi\<close> is for an array without holes (an array of rows), \<open>map_cells\<close> for an
  array of cells, where the callback is not called at a hole and the hole is kept.
\<close>

fun mapi :: "('a \<Rightarrow> nat \<Rightarrow> error + 'b) \<Rightarrow> nat \<Rightarrow> 'a list \<Rightarrow> error + 'b list" where
  "mapi f i [] = Inr []"
| "mapi f i (x # xs) =
     (case f x i of
        Inl e \<Rightarrow> Inl e
      | Inr y \<Rightarrow> (case mapi f (Suc i) xs of Inl e \<Rightarrow> Inl e | Inr ys \<Rightarrow> Inr (y # ys)))"

fun map_cells :: "(cell \<Rightarrow> nat \<Rightarrow> error + cell) \<Rightarrow> nat \<Rightarrow> row \<Rightarrow> error + row" where
  "map_cells f j [] = Inr []"
| "map_cells f j (Hole # cs) =
     (case map_cells f (Suc j) cs of Inl e \<Rightarrow> Inl e | Inr rs \<Rightarrow> Inr (Hole # rs))"
| "map_cells f j (c # cs) =
     (case f c j of
        Inl e \<Rightarrow> Inl e
      | Inr r \<Rightarrow> (case map_cells f (Suc j) cs of Inl e \<Rightarrow> Inl e | Inr rs \<Rightarrow> Inr (r # rs)))"

text \<open>
  \<^verbatim>\<open>arr.reduce((a, b) => a + b)\<close> without an initial value: holes are skipped, the
  first element present starts the sum, and an array with no element present throws a
  TypeError.
\<close>

definition reduce_add :: "row \<Rightarrow> error + cell" where
  "reduce_add arr =
     (case filter (\<lambda>c. c \<noteq> Hole) arr of
        [] \<Rightarrow> Inl TypeError
      | c # cs \<Rightarrow> Inr (foldl (\<lambda>a b. Num (num_add (ToNumber a) (ToNumber b))) c cs))"

section \<open>Matrix and Vector\<close>

text \<open>
  Modelled from the spec: the classes \<^verbatim>\<open>Matrix\<close> (\<^verbatim>\<open>Matrix.class.ts\<close>) and
  \<^verbatim>\<open>Vector\<close> (\<^verbatim>\<open>Vector.class.ts\<close>) are imported by the source but are not part of it.
  A Matrix object is its class at run time, \<^verbatim>\<open>Matrix\<close> or the subclass
  \<^verbatim>\<open>MatrixSquare\<close>, and its stored grid \<^verbatim>\<open>_DATA\<close>, an array of rows; a Vector is
  its tuple \<^verbatim>\<open>raw\<close>.  The Matrix constructor stores the grid it is given; ragged input is
  left as the caller supplied it.
\<close>

datatype cls = MatrixClass | MatrixSquareClass

datatype Matrix = Matrix (cls: cls) (DATA: "row list")

datatype Vector = Vector (vector_raw: row)

text \<open>
  Modelled from the spec: the body of the Matrix constructor, which sets \<^verbatim>\<open>_DATA\<close>, and
  \<^verbatim>\<open>new Matrix(rawdata)\<close>, an object of class \<^verbatim>\<open>Matrix\<close>.
\<close>

definition Matrix_constructor :: "row list \<Rightarrow> row list" where
  "Matrix_constructor rawdata = rawdata"

definition new_Matrix :: "row list \<Rightarrow> Matrix" where
  "new_Matrix rawdata = Matrix MatrixClass (Matrix_constructor rawdata)"

text \<open>Modelled from the spec: \<^verbatim>\<open>raw\<close>, the rows of a Matrix.\<close>

definition raw :: "Matrix \<Rightarrow> row list" where
  "raw m = DATA m"

text \<open>
  Modelled from the spec: \<^verbatim>\<open>height\<close> and \<^verbatim>\<open>width\<close>, derived from the stored grid;
  every row of a Matrix has \<^verbatim>\<open>width\<close> elements, so the first row gives the width.
\<close>

definition height :: "Matrix \<Rightarrow> nat" where
  "height m = length (DATA m)"

definition width :: "Matrix \<Rightarrow> nat" where
  "width m = (case DATA m of [] \<Rightarrow> 0 | r # _ \<Rightarrow> length r)"

text \<open>
  Modelled from the spec: \<^verbatim>\<open>at(row, col)\<close> returns the cell value and fails with an
  out-of-range error if an index is negative, \<open>row \<ge> height\<close> or \<open>col \<ge> width\<close>.
\<close>

definition Matrix_at :: "Matrix \<Rightarrow> int \<Rightarrow> int \<Rightarrow> error + cell" where
  "Matrix_at m r c =
     (if r < 0 \<or> c < 0 \<or> int (height m) \<le> r \<or> int (width m) \<le> c then Inl RangeError
      else Inr (get (DATA m ! nat r) (nat c)))"

text \<open>
  Modelled from the spec: \<^verbatim>\<open>transposition\<close> is a new Matrix of dimensions
  \<open>width \<times> height\<close> whose cell \<open>[i][j]\<close> is cell \<open>[j][i]\<close> of the source.
\<close>

definition Matrix_transposition :: "Matrix \<Rightarrow> Matrix" where
  "Matrix_transposition m =
     new_Matrix (map (\<lambda>i. map (\<lambda>j. get (DATA m ! j) i) [0..<height m]) [0..<width m])"

text \<open>The array without its element at one index.\<close>

definition delete_at :: "nat \<Rightarrow> 'a list \<Rightarrow> 'a list" where
  "delete_at i xs = take i xs @ drop (Suc i) xs"

text \<open>
  Modelled from the spec: \<^verbatim>\<open>minor(row, col)\<close> deletes the given row and the given
  column; it fails if the matrix has zero rows or zero columns (an undefined operation,
  thrown as a TypeError like the determinant of the empty matrix) or if an index is out
  of range.
\<close>

definition Matrix_minor :: "Matrix \<Rightarrow> int \<Rightarrow> int \<Rightarrow> error + Matrix" where
  "Matrix_minor m r c =
     (if height m = 0 \<or> width m = 0 then Inl TypeError
      else if r < 0 \<or> c < 0 \<or> int (height m) \<le> r \<or> int (width m) \<le> c then Inl RangeError
      else Inr (new_Matrix (map (delete_at (nat c)) (delete_at (nat r) (DATA m)))))"

text \<open>
  Modelled from the spec: \<^verbatim>\<open>scale(scalar)\<close> is a new Matrix with every cell multiplied
  by the scalar.
\<close>

definition Matrix_scale :: "Matrix \<Rightarrow> number \<Rightarrow> Matrix" where
  "Matrix_scale m scalar =
     new_Matrix (map (map (\<lambda>c. Num (num_mul (ToNumber c) scalar))) (DATA m))"

text \<open>
  Modelled from the spec: \<^verbatim>\<open>times(other)\<close> requires \<open>this.width = other.height\<close> and
  fails with a dimension-mismatch error otherwise; the result has dimensions
  \<open>this.height \<times> other.width\<close> and cell \<open>[i][j]\<close> is the sum over \<open>k\<close> of
  \<open>this[i][k] * other[k][j]\<close>.
\<close>

definition Matrix_times :: "Matrix \<Rightarrow> Matrix \<Rightarrow> error + Matrix" where
  "Matrix_times m other =
     (if width m \<noteq> height other then Inl DimensionError
      else Inr (new_Matrix
        (map (\<lambda>i. map (\<lambda>j. Num (foldl num_add (Fin 0)
                (map (\<lambda>k. num_mul (ToNumber (get (DATA m ! i) k))
                                   (ToNumber (get (DATA other ! k) j)))
                     [0..<width m])))
              [0..<width other])
           [0..<height m])))"

section \<open>MatrixSquare\<close>

text \<open>
  \<^verbatim>\<open>class MatrixSquare extends Matrix\<close> adds no field: an instance is a Matrix object
  whose class is \<^verbatim>\<open>MatrixSquare\<close>.  The constructor takes a Matrix or an array whose
  rows are Vectors or arrays of numbers; \<^verbatim>\<open>super(rawdata)\<close> runs the Matrix constructor
  on the new object.
\<close>

type_synonym MatrixSquare = Matrix

datatype rowarg = VectorRow Vector | ArrayRow row

datatype ctor_data = FromMatrix Matrix | FromRows "rowarg list"

text \<open>
  The body of the \<^verbatim>\<open>forEach\<close> callback of the constructor, for one row and the row
  count \<open>n\<close>.  The assignment \<^verbatim>\<open>row.length = n\<close> changes the row array itself.  The
  assignment \<^verbatim>\<open>row = xjs.Array.fillHoles(row, 0)\<close> binds the filled copy to the
  callback's parameter only: the array held by \<^verbatim>\<open>rawdata\<close> stays as the first
  assignment left it.
\<close>

definition resize_row :: "nat \<Rightarrow> row \<Rightarrow> row" where
  "resize_row n row =
     (let row1 = set_length n row;
          row2 = fillHoles row1 (Num (Fin 0))
      in row1)"

definition new_MatrixSquare :: "ctor_data \<Rightarrow> MatrixSquare" where
  "new_MatrixSquare data =
     (let rawdata =
            (case data of
               FromMatrix m \<Rightarrow> map spread (raw m)
             | FromRows rows \<Rightarrow>
                 map (\<lambda>r. case r of VectorRow v \<Rightarrow> spread (vector_raw v) | ArrayRow a \<Rightarrow> a) rows)
      in Matrix MatrixSquareClass
           (Matrix_constructor (map (resize_row (length rawdata)) rawdata)))"

text \<open>
  The constructor on the heap, for an array of row arrays (\<open>data\<close> lists the references
  of the caller's row arrays).  \<^verbatim>\<open>data.map((row) => row)\<close> is a new outer array of the
  same row objects, so \<^verbatim>\<open>row.length = rawdata.length\<close> writes to the caller's arrays,
  and the rows handed to the Matrix constructor, which become \<^verbatim>\<open>_DATA\<close>, are these
  objects.  The result is the heap after the call and the row references of the instance.
\<close>

type_synonym ref = nat

type_synonym heap = "ref \<rightharpoonup> row"

definition resize_row_at :: "nat \<Rightarrow> heap \<Rightarrow> ref \<Rightarrow> heap" where
  "resize_row_at n h r = (case h r of None \<Rightarrow> h | Some row \<Rightarrow> h(r \<mapsto> resize_row n row))"

definition new_MatrixSquare_heap :: "heap \<Rightarrow> ref list \<Rightarrow> heap \<times> ref list" where
  "new_MatrixSquare_heap h data =
     (let rawdata = data
      in (foldl (resize_row_at (length rawdata)) h rawdata, rawdata))"

text \<open>
  \<^verbatim>\<open>static multIden(size: bigint)\<close>.  \<^verbatim>\<open>new Array(nsize)\<close> throws a RangeError unless
  \<open>0 \<le> nsize < 2 ^ 32\<close>; \<^verbatim>\<open>Array.from\<close> calls its map function at every index.
\<close>

definition multIden :: "int \<Rightarrow> error + MatrixSquare" where
  "multIden sz =
     (let nsize = sz
      in if nsize < 0 \<or> 2 ^ 32 \<le> nsize then Inl RangeError
         else Inr (new_MatrixSquare (FromRows
                (map (\<lambda>i. ArrayRow (map (\<lambda>j. if i = j then Num (Fin 1) else Num (Fin 0))
                                         [0..<nat nsize]))
                     [0..<nat nsize]))))"

text \<open>
  \<^verbatim>\<open>get transposition\<close> returns \<^verbatim>\<open>super.transposition as MatrixSquare\<close>: the type
  assertion has no effect at run time, the object is the one the Matrix getter returns.
\<close>

definition MatrixSquare_transposition :: "MatrixSquare \<Rightarrow> MatrixSquare" where
  "MatrixSquare_transposition this = Matrix_transposition this"

definition MatrixSquare_size :: "MatrixSquare \<Rightarrow> nat" where
  "MatrixSquare_size this = height this"

definition MatrixSquare_minor :: "MatrixSquare \<Rightarrow> int \<Rightarrow> int \<Rightarrow> error + MatrixSquare" where
  "MatrixSquare_minor this r c =
     (case Matrix_minor this r c of
        Inl e \<Rightarrow> Inl e
      | Inr m \<Rightarrow> Inr (new_MatrixSquare (FromMatrix m)))"

definition MatrixSquare_scale :: "MatrixSquare \<Rightarrow> number \<Rightarrow> MatrixSquare" where
  "MatrixSquare_scale this scalar = new_MatrixSquare (FromMatrix (Matrix_scale this scalar))"

definition MatrixSquare_times :: "MatrixSquare \<Rightarrow> Matrix \<Rightarrow> error + MatrixSquare" where
  "MatrixSquare_times this multiplier =
     (case Matrix_times this multiplier of
        Inl e \<Rightarrow> Inl e
      | Inr m \<Rightarrow> Inr (new_MatrixSquare (FromMatrix m)))"

text \<open>The factor \<^verbatim>\<open>(k % 2 === 0) ? 1 : -1\<close>.\<close>

definition sign :: "nat \<Rightarrow> number" where
  "sign k = (if k mod 2 = 0 then Fin 1 else Fin (- 1))"

text \<open>
  \<^verbatim>\<open>get det\<close>.  The loop of \<^verbatim>\<open>this._DATA[0].map((cell, j) => \<dots>)\<close> is \<open>det_terms\<close>,
  which runs over the rest of row \<open>0\<close> from column \<open>j\<close>; the callback is not called at a
  hole.  The result is typed \<^verbatim>\<open>number\<close>; at size \<open>1\<close> it is whatever the cell holds.
  The getter belongs to \<^verbatim>\<open>MatrixSquare\<close>, so \<^verbatim>\<open>this\<close> is an instance of that class,
  \<^verbatim>\<open>this.minor\<close> is \<^verbatim>\<open>MatrixSquare.minor\<close>, and its result, which comes out of
  \<^verbatim>\<open>new MatrixSquare\<close>, has the getter too.
\<close>

function det :: "MatrixSquare \<Rightarrow> error + cell"
  and det_terms :: "MatrixSquare \<Rightarrow> nat \<Rightarrow> row \<Rightarrow> error + row" where
  "det this =
     (if MatrixSquare_size this = 0 then Inl TypeError
      else if MatrixSquare_size this = 1 then Matrix_at this 0 0
      else (case det_terms this 0 (DATA this ! 0) of
              Inl e \<Rightarrow> Inl e
            | Inr terms \<Rightarrow> reduce_add terms))"
| "det_terms this j [] = Inr []"
| "det_terms this j (cell # cells) =
     (if cell = Hole
      then (case det_terms this (Suc j) cells of
              Inl e \<Rightarrow> Inl e
            | Inr terms \<Rightarrow> Inr (Hole # terms))
      else (case MatrixSquare_minor this 0 (int j) of
              Inl e \<Rightarrow> Inl e
            | Inr m \<Rightarrow>
                (case det m of
                   Inl e \<Rightarrow> Inl e
                 | Inr d \<Rightarrow>
                     (case det_terms this (Suc j) cells of
                        Inl e \<Rightarrow> Inl e
                      | Inr terms \<Rightarrow>
                          Inr (Num (num_mul (num_mul (sign j) (ToNumber cell)) (ToNumber d))
                               # terms)))))"
  by pat_completeness auto
termination
proof (relation "measures [\<lambda>x. case x of Inl this \<Rightarrow> height this | Inr (this, j, cells) \<Rightarrow> height this,
                          \<lambda>x. case x of Inl this \<Rightarrow> Suc (length (DATA this ! 0)) | Inr (this, j, cells) \<Rightarrow> length cells]")
  fix this :: Matrix and j :: nat and cell :: cell and cells :: row and m :: Matrix
  assume "MatrixSquare_minor this 0 (int j) = Inr m"
  then have "height m < height this"
    by (auto simp: MatrixSquare_minor_def Matrix_minor_def new_MatrixSquare_def new_Matrix_def Matrix_constructor_def
        raw_def height_def delete_at_def Let_def split: if_splits sum.splits)
  then show "(Inl m, Inr (this, j, cell # cells)) \<in>
      measures [\<lambda>x. case x of Inl this \<Rightarrow> height this | Inr (this, j, cells) \<Rightarrow> height this,
                \<lambda>x. case x of Inl this \<Rightarrow> Suc (length (DATA this ! 0)) | Inr (this, j, cells) \<Rightarrow> length cells]"
    by simp
qed simp_all

text \<open>
  Method call and property read by the class of the object at run time.
  \<^verbatim>\<open>obj.minor(r, c)\<close> is the method of \<^verbatim>\<open>MatrixSquare\<close> on an instance of that class
  and the one of \<^verbatim>\<open>Matrix\<close> otherwise.  \<^verbatim>\<open>obj.det\<close> is the getter above on a
  \<^verbatim>\<open>MatrixSquare\<close>; the source marks \<^verbatim>\<open>transposition\<close>, \<^verbatim>\<open>minor\<close>,
  \<^verbatim>\<open>scale\<close> and \<^verbatim>\<open>times\<close> as overriding \<^verbatim>\<open>Matrix\<close> and \<^verbatim>\<open>det\<close> not, and the
  spec gives \<^verbatim>\<open>Matrix\<close> no determinant, so on an object of class \<^verbatim>\<open>Matrix\<close> the read
  finds no property and yields \<^verbatim>\<open>undefined\<close>.
\<close>

definition call_minor :: "Matrix \<Rightarrow> int \<Rightarrow> int \<Rightarrow> error + Matrix" where
  "call_minor obj r c =
     (case cls obj of
        MatrixSquareClass \<Rightarrow> MatrixSquare_minor obj r c
      | MatrixClass \<Rightarrow> Matrix_minor obj r c)"

definition read_det :: "Matrix \<Rightarrow> error + cell" where
  "read_det obj =
     (case cls obj of
        MatrixSquareClass \<Rightarrow> det obj
      | MatrixClass \<Rightarrow> Inr Undef)"

text \<open>\<^verbatim>\<open>get reciprocal\<close>; each \<^verbatim>\<open>this.det\<close> of the source is one call of the getter.\<close>

definition MatrixSquare_reciprocal :: "MatrixSquare \<Rightarrow> error + MatrixSquare" where
  "MatrixSquare_reciprocal this =
     (case det this of
        Inl e \<Rightarrow> Inl e
      | Inr d \<Rightarrow>
          if strict_eq d (Num (Fin 0)) then Inl TypeError
          else if MatrixSquare_size this = 0 then Inr (new_MatrixSquare (FromRows []))
          else if MatrixSquare_size this = 1
          then (case det this of
                  Inl e \<Rightarrow> Inl e
                | Inr d1 \<Rightarrow>
                    Inr (new_MatrixSquare
                          (FromRows [ArrayRow [Num (num_div (Fin 1) (ToNumber d1))]])))
          else (case mapi (\<lambda>row i. map_cells (\<lambda>_ j.
                          case call_minor (MatrixSquare_transposition this) (int i) (int j) of
                            Inl e \<Rightarrow> Inl e
                          | Inr m \<Rightarrow>
                              (case read_det m of
                                 Inl e \<Rightarrow> Inl e
                               | Inr dm \<Rightarrow> Inr (Num (num_mul (sign (i + j)) (ToNumber dm)))))
                        0 row) 0 (DATA this) of
                  Inl e \<Rightarrow> Inl e
                | Inr cofactors \<Rightarrow>
                    (case det this of
                       Inl e \<Rightarrow> Inl e
                     | Inr d2 \<Rightarrow>
                         Inr (MatrixSquare_scale
                               (new_MatrixSquare (FromRows (map ArrayRow cofactors)))
                               (num_div (Fin 1) (ToNumber d2))))))"

section \<open>Invariants and the cofactor expansion, as the specification words them\<close>

text \<open>
  The square invariant \<open>height = width = size\<close>: every row has as many slots as the
  matrix has rows.
\<close>

definition is_square :: "Matrix \<Rightarrow> bool" where
  "is_square m \<longleftrightarrow> (\<forall>row \<in> set (DATA m). length row = height m)"

text \<open>
  A grid of numbers, as the type \<^verbatim>\<open>readonly number[][]\<close> of \<^verbatim>\<open>_DATA\<close> promises: no
  hole and no \<^verbatim>\<open>undefined\<close>.  A MatrixSquare in the sense of the data model is an
  instance of the class whose grid is square and holds numbers.
\<close>

fun is_number :: "cell \<Rightarrow> bool" where
  "is_number (Num _) = True"
| "is_number _ = False"

definition numeric :: "Matrix \<Rightarrow> bool" where
  "numeric m \<longleftrightarrow> (\<forall>row \<in> set (DATA m). \<forall>c \<in> set row. is_number c)"

definition square_matrix :: "Matrix \<Rightarrow> bool" where
  "square_matrix m \<longleftrightarrow> cls m = MatrixSquareClass \<and> is_square m \<and> numeric m"

text \<open>
  The determinant of the minor at row \<open>0\<close> and column \<open>j\<close>, as a number, and the
  cofactor expansion along row \<open>0\<close>: the sum over \<open>j\<close> of
  \<open>(-1) ^ j * cell[0][j] * minor(0, j).det\<close>, added from \<open>j = 0\<close> upwards.
\<close>

definition minor_det :: "MatrixSquare \<Rightarrow> nat \<Rightarrow> number" where
  "minor_det A j =
     (case MatrixSquare_minor A 0 (int j) of
        Inl e \<Rightarrow> NaN
      | Inr m \<Rightarrow> (case det m of Inl e \<Rightarrow> NaN | Inr d \<Rightarrow> ToNumber d))"

definition cofactor_term :: "MatrixSquare \<Rightarrow> nat \<Rightarrow> number" where
  "cofactor_term A j =
     num_mul (num_mul (Fin ((- 1) ^ j)) (ToNumber (DATA A ! 0 ! j))) (minor_det A j)"

definition cofactor_expansion :: "MatrixSquare \<Rightarrow> number" where
  "cofactor_expansion A =
     foldl num_add (cofactor_term A 0) (map (cofactor_term A) [1..<MatrixSquare_size A])"

text \<open>The grid with \<open>1\<close> on the main diagonal and \<open>0\<close> elsewhere.\<close>

definition identity_grid :: "nat \<Rightarrow> row list" where
  "identity_grid n =
     map (\<lambda>i. map (\<lambda>j. if i = j then Num (Fin 1) else Num (Fin 0)) [0..<n]) [0..<n]"

text \<open>
  Grids of zeros and ones with at most one \<open>1\<close> in each row (every slot but one is
  \<open>0\<close>): the identity matrices and all their minors are of this kind.
\<close>

definition unit_row :: "row \<Rightarrow> bool" where
  "unit_row r \<longleftrightarrow>
     (\<forall>c \<in> set r. c = Num (Fin 0) \<or> c = Num (Fin 1)) \<and>
     (\<exists>i. \<forall>k < length r. k \<noteq> i \<longrightarrow> r ! k = Num (Fin 0))"

definition unit_rows :: "Matrix \<Rightarrow> bool" where
  "unit_rows m \<longleftrightarrow>
     cls m = MatrixSquareClass \<and> is_square m \<and> (\<forall>r \<in> set (DATA m). unit_row r)"

text \<open>
  The values a determinant of such a grid can take, \<open>-1\<close>, \<open>-0\<close>, \<open>0\<close> and \<open>1\<close>, and
  the two zeros among them.
\<close>

definition units :: "number set" where
  "units = {Fin (- 1), NegZero, Fin 0, Fin 1}"

definition zeros :: "number set" where
  "zeros = {NegZero, Fin 0}"

section \<open>Proofs\<close>

declare det.simps [simp del]

section \<open>Facts about rounding\<close>

lemmas round_eval = round_double_def ilog2_def rne_def Let_def compute_floorlog

lemma rne_lower: "\<lfloor>x\<rfloor> \<le> rne x"
  by (simp add: rne_def Let_def)

lemma rne_upper: "rne x \<le> \<lceil>x\<rceil>"
proof -
  have "\<lfloor>x\<rfloor> + 1 \<le> \<lceil>x\<rceil>" if "0 < x - of_int \<lfloor>x\<rfloor>"
    using that by (simp add: ceiling_altdef)
  then show ?thesis
    by (auto simp: rne_def Let_def ceiling_altdef)
qed

lemma rne_nonneg: "0 \<le> x \<Longrightarrow> 0 \<le> rne x"
  using rne_lower [of x] by (simp add: order_trans [of 0 "\<lfloor>x\<rfloor>"])

lemma rne_le_int: "x \<le> of_int n \<Longrightarrow> rne x \<le> n"
  using rne_upper [of x] by (meson ceiling_le order_trans)

text \<open>
  The exponent function brackets its argument between two powers of two, and a rounded
  value is within half a unit in the last place of the exact one.
\<close>

lemma ilog2_ge_one:
  assumes "1 \<le> x"
  defines "L \<equiv> floorlog 2 (nat \<lfloor>x\<rfloor>)"
  shows "ilog2 x = int (L - 1)" and "2 ^ (L - 1) \<le> x" and "x < 2 ^ L"
proof -
  have pos: "0 < nat \<lfloor>x\<rfloor>" using assms(1) by simp
  have L1: "1 \<le> L" using pos by (simp add: L_def floorlog_def)
  show "ilog2 x = int (L - 1)"
    using assms(1) L1 by (simp add: ilog2_def L_def [symmetric] of_nat_diff)
  have b: "2 ^ (L - 1) \<le> nat \<lfloor>x\<rfloor>" "nat \<lfloor>x\<rfloor> < 2 ^ L"
    using floorlog_bounds [OF pos, of 2] by (simp_all add: L_def)
  have fl: "int (nat \<lfloor>x\<rfloor>) = \<lfloor>x\<rfloor>" using assms(1) by simp
  have "int (2 ^ (L - 1)) \<le> int (nat \<lfloor>x\<rfloor>)" using b(1) by (simp only: of_nat_le_iff)
  then have "(2::int) ^ (L - 1) \<le> \<lfloor>x\<rfloor>" using fl by simp
  then show "2 ^ (L - 1) \<le> x" using le_floor_iff [of "2 ^ (L - 1)" x] by simp
  have "int (nat \<lfloor>x\<rfloor>) < int (2 ^ L)" using b(2) by (simp only: of_nat_less_iff)
  then have "\<lfloor>x\<rfloor> < (2::int) ^ L" using fl by simp
  then show "x < 2 ^ L" using floor_less_iff [of x "2 ^ L"] by simp
qed

lemma ilog2_less_one:
  assumes "0 < x" and "x < 1"
  defines "L \<equiv> floorlog 2 (nat (\<lceil>1 / x\<rceil> - 1))"
  shows "ilog2 x = - int L" and "1 \<le> L" and "1 / 2 ^ L \<le> x" and "x < 1 / 2 ^ (L - 1)"
proof -
  define n where "n = nat (\<lceil>1 / x\<rceil> - 1)"
  have inv: "1 < 1 / x" using assms(1,2) by simp
  then have c: "2 \<le> \<lceil>1 / x\<rceil>" by linarith
  then have pos: "0 < n" unfolding n_def by linarith
  have n: "int n = \<lceil>1 / x\<rceil> - 1" using c unfolding n_def by linarith
  show L1: "1 \<le> L" using pos by (simp add: L_def n_def [symmetric] floorlog_def)
  show "ilog2 x = - int L"
    using assms(2) by (simp add: ilog2_def L_def)
  have b: "2 ^ (L - 1) \<le> n" "n < 2 ^ L"
    using floorlog_bounds [OF pos, of 2] by (simp_all add: L_def n_def)
  have "int n < int (2 ^ L)" using b(2) by (simp only: of_nat_less_iff)
  then have "\<lceil>1 / x\<rceil> \<le> (2::int) ^ L" using n by simp
  then have "1 / x \<le> 2 ^ L" using ceiling_le_iff [of "1 / x" "2 ^ L"] by simp
  then have "1 \<le> 2 ^ L * x" using assms(1) by (simp add: pos_divide_le_eq)
  then show "1 / 2 ^ L \<le> x" by (simp add: pos_divide_le_eq mult.commute)
  have "int (2 ^ (L - 1)) \<le> int n" using b(1) by (simp only: of_nat_le_iff)
  then have "(2::int) ^ (L - 1) < \<lceil>1 / x\<rceil>" using n by simp
  then have "2 ^ (L - 1) < 1 / x" using less_ceiling_iff [of "2 ^ (L - 1)" "1 / x"] by simp
  then have "2 ^ (L - 1) * x < 1" using assms(1) by (simp add: pos_less_divide_eq)
  then show "x < 1 / 2 ^ (L - 1)" by (simp add: pos_less_divide_eq mult.commute)
qed

lemma ilog2_bounds:
  assumes "0 < x"
  shows "2 powi (ilog2 x) \<le> x \<and> x < 2 powi (ilog2 x + 1)"
proof (cases "1 \<le> x")
  case True
  define L where "L = floorlog 2 (nat \<lfloor>x\<rfloor>)"
  note b = ilog2_ge_one [OF True, folded L_def]
  have L1: "1 \<le> L" using True by (simp add: L_def floorlog_def)
  have "ilog2 x + 1 = int L" using b(1) L1 by simp
  then have "2 powi (ilog2 x + 1) = (2::real) ^ L" by (simp only: power_int_of_nat)
  moreover have "2 powi (ilog2 x) = (2::real) ^ (L - 1)"
    by (simp only: b(1) power_int_of_nat)
  ultimately show ?thesis using b(2,3) by simp
next
  case False
  then have lt: "x < 1" by simp
  define L where "L = floorlog 2 (nat (\<lceil>1 / x\<rceil> - 1))"
  note b = ilog2_less_one [OF assms lt, folded L_def]
  have "2 powi (ilog2 x) = 1 / (2::real) ^ L"
    by (simp only: b(1) power_int_minus_divide power_int_of_nat)
  moreover have "ilog2 x + 1 = - int (L - 1)" using b(1,2) by simp
  then have "2 powi (ilog2 x + 1) = 1 / (2::real) ^ (L - 1)"
    by (simp only: power_int_minus_divide power_int_of_nat)
  ultimately show ?thesis using b(3,4) by simp
qed

lemma rne_error: "\<bar>of_int (rne z) - z\<bar> \<le> 1 / 2"
proof -
  have "of_int \<lfloor>z\<rfloor> \<le> z" "z < of_int \<lfloor>z\<rfloor> + 1" by linarith+
  then show ?thesis unfolding rne_def Let_def by (auto simp: abs_if) linarith+
qed

lemma round_double_error:
  assumes "round_double x = Fin y"
  shows "\<bar>y - x\<bar> \<le> 2 powi (max (ilog2 \<bar>x\<bar>) (- 1022) - 53)"
proof (cases "x = 0")
  case True
  with assms show ?thesis by (simp add: round_double_def)
next
  case False
  define q :: real where "q = 2 powi (max (ilog2 \<bar>x\<bar>) (- 1022) - 52)"
  have qpos: "0 < q" by (simp add: q_def)
  have y: "y = of_int (rne (x / q)) * q"
    using assms False by (simp add: round_double_def Let_def q_def split: if_splits)
  have "y - x = (of_int (rne (x / q)) - x / q) * q"
    using qpos by (simp add: y algebra_simps)
  then have "\<bar>y - x\<bar> = \<bar>of_int (rne (x / q)) - x / q\<bar> * q"
    using qpos by (simp add: abs_mult)
  also have "\<dots> \<le> 1 / 2 * q"
    using rne_error [of "x / q"] qpos by (intro mult_right_mono) simp_all
  also have "\<dots> = 2 powi (max (ilog2 \<bar>x\<bar>) (- 1022) - 53)"
  proof -
    have "max (ilog2 \<bar>x\<bar>) (- 1022) - 52 = (max (ilog2 \<bar>x\<bar>) (- 1022) - 53) + 1" by simp
    then have "q = 2 powi (max (ilog2 \<bar>x\<bar>) (- 1022) - 53) * 2"
      unfolding q_def using power_int_add_1 [of "2::real" "max (ilog2 \<bar>x\<bar>) (- 1022) - 53"]
      by simp
    then show ?thesis by simp
  qed
  finally show ?thesis .
qed

lemma ilog2_unit: 
  assumes "0 < x" "x \<le> 1"
  shows "ilog2 x \<le> 0"
proof (cases "x = 1")
  case True
  then show ?thesis by (simp add: ilog2_def compute_floorlog)
next
  case False
  with assms have "\<not> 1 \<le> x" by simp
  then show ?thesis by (simp add: ilog2_def)
qed

lemma round_double_unit:
  assumes "0 \<le> x" "x \<le> 1"
  shows "\<exists>y. round_double x = Fin y \<and> 0 \<le> y \<and> y \<le> 1"
proof (cases "x = 0")
  case True
  then show ?thesis by (simp add: round_double_def)
next
  case False
  with assms have pos: "0 < x" by simp
  define e where "e = max (ilog2 \<bar>x\<bar>) (- 1022)"
  define q :: real where "q = 2 powi (e - 52)"
  define y where "y = of_int (rne (x / q)) * q"
  have "ilog2 x \<le> 0" using pos assms(2) by (rule ilog2_unit)
  then have e: "e \<le> 0" using pos by (simp add: e_def)
  have qpos: "0 < q" by (simp add: q_def)
  define N where "N = (2::int) ^ nat (52 - e)"
  have qN: "q * of_int N = 1"
  proof -
    have "q = inverse (2 powi (52 - e))"
      by (metis q_def power_int_minus minus_diff_eq)
    moreover have "(2::real) powi (52 - e) = of_int N"
      using e by (simp add: N_def power_int_def)
    moreover have "0 < N" by (simp add: N_def)
    ultimately show ?thesis by simp
  qed
  have "x / q \<le> of_int N"
  proof -
    have "x / q = x * of_int N" using qN qpos
      by (metis divide_inverse inverse_unique)
    also have "\<dots> \<le> 1 * of_int N"
      using assms(2) by (intro mult_right_mono) (simp_all add: N_def)
    finally show ?thesis by simp
  qed
  then have "rne (x / q) \<le> N" by (rule rne_le_int)
  then have "y \<le> of_int N * q"
    unfolding y_def using qpos by (intro mult_right_mono) simp_all
  then have y1: "y \<le> 1" using qN by (simp add: mult.commute)
  have "0 \<le> rne (x / q)" using pos qpos by (intro rne_nonneg) simp
  then have y0: "0 \<le> y" unfolding y_def using qpos by simp
  have "\<bar>y\<bar> < 2 ^ 1024"
  proof -
    have "\<bar>y\<bar> \<le> 1" using y0 y1 by simp
    also have "(1::real) < 2 ^ 1024" by (rule one_less_power) simp_all
    finally show ?thesis .
  qed
  then have "round_double x = Fin y"
    using False pos by (simp add: round_double_def Let_def e_def q_def y_def)
  with y0 y1 show ?thesis by blast
qed

lemma round_double_small:
  "round_double 1 = Fin 1" "round_double (- 1) = Fin (- 1)"
  by (simp_all add: round_eval)

lemma round_double_zero [simp]: "round_double 0 = Fin 0"
  by (simp add: round_double_def)

section \<open>Percentage\<close>

lemma num_sub_Fin [simp]: "num_sub (Fin a) (Fin b) = round_double (a - b)"
  by (simp add: num_sub_def)

lemma num_sub_NegZero [simp]: "num_sub (Fin a) NegZero = round_double a"
  by (simp add: num_sub_def)

lemma new_Percentage_MULT_IDEN: "new_Percentage (Fin 1) = Inr MULT_IDEN"
  by (simp add: new_Percentage_def MULT_IDEN_def)

lemma new_Percentage_MULT_ABSORB: "new_Percentage (Fin 0) = Inr MULT_ABSORB"
  by (simp add: new_Percentage_def MULT_ABSORB_def)

lemma new_Percentage_Inr_iff:
  "new_Percentage v = Inr p \<longleftrightarrow>
     ((\<exists>x. v = Fin x \<and> 0 \<le> x) \<or> v = NegZero) \<and> p = Percentage v"
  by (cases v) (auto simp: new_Percentage_def)

lemma conjugate_unit:
  assumes "0 \<le> x" "x \<le> 1"
  shows "\<exists>y. Percentage_conjugate (Percentage (Fin x)) = Inr (Percentage (Fin y)) \<and>
             round_double (1 - x) = Fin y \<and> 0 \<le> y \<and> y \<le> 1"
proof -
  have "0 \<le> 1 - x" "1 - x \<le> 1" using assms by simp_all
  then obtain y where y: "round_double (1 - x) = Fin y" "0 \<le> y" "y \<le> 1"
    using round_double_unit by blast
  then have "Percentage_conjugate (Percentage (Fin x)) = Inr (Percentage (Fin y))"
    using assms by (simp add: Percentage_conjugate_def new_Percentage_def)
  with y show ?thesis by blast
qed

lemma conjugate_NegZero:
  "Percentage_conjugate (Percentage NegZero) = Inr (Percentage (Fin 1))"
  by (simp add: Percentage_conjugate_def new_Percentage_def round_double_small)

lemma conjugate_one:
  "Percentage_conjugate (Percentage (Fin 1)) = Inr (Percentage (Fin 0))"
  by (simp add: Percentage_conjugate_def new_Percentage_def)

lemma conjugate_above: "1 < x \<Longrightarrow> Percentage_conjugate (Percentage (Fin x)) = Inl RangeError"
  by (simp add: Percentage_conjugate_def)

text \<open>
  The reciprocal of the zero Percentage \<^verbatim>\<open>MULT_ABSORB = new Percentage()\<close>: the quotient
  \<^verbatim>\<open>MULT_IDEN.valueOf() / this.valueOf()\<close> is \<open>+Infinity\<close>, and the constructor,
  which asserts a finite value, throws.
\<close>

theorem reciprocal_zero_counterexample:
  "new_Percentage (Fin 0) = Inr MULT_ABSORB \<and> valueOf MULT_ABSORB = Fin 0 \<and>
   num_div (valueOf MULT_IDEN) (valueOf MULT_ABSORB) = PosInf \<and>
   Percentage_reciprocal MULT_ABSORB = Inl DomainError"
  by (simp add: Percentage_reciprocal_def MULT_ABSORB_def MULT_IDEN_def new_Percentage_def)

text \<open>
  C2, as the code has it: for a Percentage \<open>p\<close> with \<^verbatim>\<open>p === 0\<close>, \<^verbatim>\<open>reciprocal\<close>
  computes \<^verbatim>\<open>MULT_IDEN / p\<close>, which is infinite, and hands it to the constructor, whose
  assertions reject it: the getter raises an error and returns no Percentage.  For the
  positive zero the quotient is \<open>+Infinity\<close>, which is non-negative and fails the assertion
  of a finite value; for the negative zero (\<^verbatim>\<open>new Percentage(-0)\<close> is a Percentage) it is
  \<open>-Infinity\<close>, which fails the assertion of a non-negative value.
\<close>

theorem reciprocal_zero_raises:
  assumes "new_Percentage v = Inr p" and "num_eq (valueOf p) (Fin 0)"
  shows "(valueOf p = Fin 0 \<longrightarrow>
            num_div (valueOf MULT_IDEN) (valueOf p) = PosInf \<and>
            assertType (num_div (valueOf MULT_IDEN) (valueOf p)) NonNegative = Inr () \<and>
            assertType (num_div (valueOf MULT_IDEN) (valueOf p)) Finite = Inl DomainError) \<and>
         (valueOf p = NegZero \<longrightarrow>
            num_div (valueOf MULT_IDEN) (valueOf p) = NegInf \<and>
            assertType (num_div (valueOf MULT_IDEN) (valueOf p)) NonNegative = Inl DomainError) \<and>
         (valueOf p = Fin 0 \<or> valueOf p = NegZero) \<and>
         Percentage_reciprocal p = Inl DomainError"
proof -
  from assms(2) have z: "valueOf p = Fin 0 \<or> valueOf p = NegZero"
    by (auto simp: num_eq_def is_zero_def)
  have pos: "num_div (valueOf MULT_IDEN) (Fin 0) = PosInf"
    and neg: "num_div (valueOf MULT_IDEN) NegZero = NegInf"
    by (simp_all add: MULT_IDEN_def)
  have rec: "Percentage_reciprocal p = Inl DomainError"
    using z pos neg by (auto simp: Percentage_reciprocal_def new_Percentage_def)
  show ?thesis using z pos neg rec by auto
qed

theorem reciprocal_zero_raises_witness:
  "new_Percentage (Fin 0) = Inr (Percentage (Fin 0)) \<and>
   num_eq (valueOf (Percentage (Fin 0))) (Fin 0) \<and>
   num_div (valueOf MULT_IDEN) (valueOf (Percentage (Fin 0))) = PosInf \<and>
   Percentage_reciprocal (Percentage (Fin 0)) = Inl DomainError \<and>
   new_Percentage NegZero = Inr (Percentage NegZero) \<and>
   num_eq (valueOf (Percentage NegZero)) (Fin 0) \<and>
   num_div (valueOf MULT_IDEN) (valueOf (Percentage NegZero)) = NegInf \<and>
   Percentage_reciprocal (Percentage NegZero) = Inl DomainError"
proof -
  have a: "new_Percentage (Fin 0) = Inr (Percentage (Fin 0))"
    by (simp add: new_Percentage_def)
  have b: "num_eq (valueOf (Percentage (Fin 0))) (Fin 0)"
    by (simp add: num_eq_def)
  have c: "new_Percentage NegZero = Inr (Percentage NegZero)"
    by (simp add: new_Percentage_def)
  have d: "num_eq (valueOf (Percentage NegZero)) (Fin 0)"
    by (simp add: num_eq_def is_zero_def)
  have e: "num_div (valueOf MULT_IDEN) (valueOf (Percentage (Fin 0))) = PosInf"
    using reciprocal_zero_raises [OF a b, THEN conjunct1] by simp
  have f: "Percentage_reciprocal (Percentage (Fin 0)) = Inl DomainError"
    using reciprocal_zero_raises [OF a b] by (elim conjE)
  have g: "num_div (valueOf MULT_IDEN) (valueOf (Percentage NegZero)) = NegInf"
    using reciprocal_zero_raises [OF c d, THEN conjunct2, THEN conjunct1] by simp
  have h: "Percentage_reciprocal (Percentage NegZero) = Inl DomainError"
    using reciprocal_zero_raises [OF c d] by (elim conjE)
  from a b e f c d g h show ?thesis by (intro conjI)
qed

text \<open>
  C10: a constructed Percentage has a finite value that is not below \<open>0\<close>, so the first
  half of the range check of \<^verbatim>\<open>conjugate\<close> is never true, and \<^verbatim>\<open>conjugate\<close> throws
  if and only if the value is greater than \<open>1\<close>.
\<close>

theorem conjugate_throws_iff_above_one:
  assumes "new_Percentage v = Inr p"
  shows "\<not> num_lt (valueOf p) (Fin 0) \<and> isFinite (valueOf p) \<and>
         ((\<exists>e. Percentage_conjugate p = Inl e) \<longleftrightarrow> num_lt (Fin 1) (valueOf p))"
proof -
  from assms have p: "p = Percentage v" and v: "(\<exists>x. v = Fin x \<and> 0 \<le> x) \<or> v = NegZero"
    by (auto simp: new_Percentage_Inr_iff)
  from v show ?thesis
  proof
    assume "\<exists>x. v = Fin x \<and> 0 \<le> x"
    then obtain x where x: "v = Fin x" "0 \<le> x" by blast
    show ?thesis
    proof (cases "x \<le> 1")
      case True
      with x p conjugate_unit [of x] show ?thesis by auto
    next
      case False
      with x p show ?thesis by (simp add: Percentage_conjugate_def)
    qed
  next
    assume "v = NegZero"
    with p conjugate_NegZero show ?thesis by simp
  qed
qed

theorem conjugate_throws_iff_above_one_witness:
  "new_Percentage (Fin (3 / 2)) = Inr (Percentage (Fin (3 / 2))) \<and>
   Percentage_conjugate (Percentage (Fin (3 / 2))) = Inl RangeError \<and>
   num_lt (Fin 1) (valueOf (Percentage (Fin (3 / 2))))"
proof -
  have a: "new_Percentage (Fin (3 / 2)) = Inr (Percentage (Fin (3 / 2)))"
    by (simp add: new_Percentage_def)
  show ?thesis
    using a conjugate_throws_iff_above_one [OF a] by (simp add: Percentage_conjugate_def)
qed

text \<open>
  \<^verbatim>\<open>new Percentage(0.1).conjugate.conjugate\<close>: the literal \<^verbatim>\<open>0.1\<close> is the binary64
  value \<open>3602879701896397 / 2 ^ 55\<close>; \<open>1 - 0.1\<close> rounds to \<open>0.9\<close>, and \<open>1 - 0.9\<close> is
  \<open>0.09999999999999998\<close>, which \<^verbatim>\<open>equals\<close> tells apart from \<open>0.1\<close>.
\<close>

theorem conjugate_twice_counterexample:
  "new_Percentage (round_double (1 / 10)) = Inr (Percentage (Fin (3602879701896397 / 2 ^ 55))) \<and>
   Percentage_conjugate (Percentage (Fin (3602879701896397 / 2 ^ 55)))
     = Inr (Percentage (Fin (8106479329266893 / 2 ^ 53))) \<and>
   Percentage_conjugate (Percentage (Fin (8106479329266893 / 2 ^ 53)))
     = Inr (Percentage (Fin (900719925474099 / 2 ^ 53))) \<and>
   \<not> Percentage_equals (Percentage (Fin (900719925474099 / 2 ^ 53)))
                        (Percentage (Fin (3602879701896397 / 2 ^ 55)))"
proof -
  have a: "new_Percentage (round_double (1 / 10)) = Inr (Percentage (Fin (3602879701896397 / 2 ^ 55)))"
    by (simp add: round_eval new_Percentage_def)
  have b: "Percentage_conjugate (Percentage (Fin (3602879701896397 / 2 ^ 55)))
     = Inr (Percentage (Fin (8106479329266893 / 2 ^ 53)))"
    by (simp add: round_eval new_Percentage_def Percentage_conjugate_def)
  have c: "Percentage_conjugate (Percentage (Fin (8106479329266893 / 2 ^ 53)))
     = Inr (Percentage (Fin (900719925474099 / 2 ^ 53)))"
    by (simp add: round_eval new_Percentage_def Percentage_conjugate_def)
  have d: "\<not> Percentage_equals (Percentage (Fin (900719925474099 / 2 ^ 53)))
                        (Percentage (Fin (3602879701896397 / 2 ^ 55)))"
    by (simp add: Percentage_equals_def num_eq_def is_zero_def)
  from a b c d show ?thesis by (intro conjI)
qed

text \<open>
  C9, as the code has it: for a Percentage \<open>p\<close> with \<open>0 \<le> p \<le> 1\<close> both
  \<^verbatim>\<open>p.conjugate\<close> and \<^verbatim>\<open>p.conjugate.conjugate\<close> are Percentages, with the values
  \<open>1 - p\<close> and \<open>1 - (1 - p)\<close> of binary64 subtraction, and \<^verbatim>\<open>p.conjugate.conjugate\<close>
  equals \<open>p\<close> whenever the subtraction \<open>1 - p\<close> is exact; \<^verbatim>\<open>conjugate\<close> fails with a
  RangeError for a Percentage above \<open>1\<close>.
\<close>

theorem conjugate_twice:
  assumes "new_Percentage v = Inr p"
  shows "(\<not> num_lt (Fin 1) v \<longrightarrow>
           (\<exists>q r. Percentage_conjugate p = Inr q \<and> Percentage_conjugate q = Inr r \<and>
                  valueOf q = num_sub (Fin 1) (valueOf p) \<and>
                  valueOf r = num_sub (Fin 1) (valueOf q) \<and>
                  (is_double (num_real v) \<and> num_real (valueOf q) = 1 - num_real v
                     \<longrightarrow> Percentage_equals r p))) \<and>
         (num_lt (Fin 1) v \<longrightarrow> Percentage_conjugate p = Inl RangeError)"
proof -
  from assms have p: "p = Percentage v" and v: "(\<exists>x. v = Fin x \<and> 0 \<le> x) \<or> v = NegZero"
    by (auto simp: new_Percentage_Inr_iff)
  from v show ?thesis
  proof
    assume "\<exists>x. v = Fin x \<and> 0 \<le> x"
    then obtain x where x: "v = Fin x" "0 \<le> x" by blast
    have above: "num_lt (Fin 1) v \<longrightarrow> Percentage_conjugate p = Inl RangeError"
      using x p by (simp add: conjugate_above)
    have within: "\<not> num_lt (Fin 1) v \<longrightarrow>
           (\<exists>q r. Percentage_conjugate p = Inr q \<and> Percentage_conjugate q = Inr r \<and>
                  valueOf q = num_sub (Fin 1) (valueOf p) \<and>
                  valueOf r = num_sub (Fin 1) (valueOf q) \<and>
                  (is_double (num_real v) \<and> num_real (valueOf q) = 1 - num_real v
                     \<longrightarrow> Percentage_equals r p))"
    proof
      assume "\<not> num_lt (Fin 1) v"
      then have le: "x \<le> 1" using x by simp
      from conjugate_unit [OF x(2) le] obtain y where
        y: "Percentage_conjugate (Percentage (Fin x)) = Inr (Percentage (Fin y))"
           "round_double (1 - x) = Fin y" "0 \<le> y" "y \<le> 1" by blast
      from conjugate_unit [OF y(3) y(4)] obtain z where
        z: "Percentage_conjugate (Percentage (Fin y)) = Inr (Percentage (Fin z))"
           "round_double (1 - y) = Fin z" by blast
      have "Percentage_equals (Percentage (Fin z)) p" if "is_double x" "y = 1 - x"
        using that z(2) x(1) p by (simp add: is_double_def Percentage_equals_def num_eq_def)
      then show "\<exists>q r. Percentage_conjugate p = Inr q \<and> Percentage_conjugate q = Inr r \<and>
                  valueOf q = num_sub (Fin 1) (valueOf p) \<and>
                  valueOf r = num_sub (Fin 1) (valueOf q) \<and>
                  (is_double (num_real v) \<and> num_real (valueOf q) = 1 - num_real v
                     \<longrightarrow> Percentage_equals r p)"
        using y z x(1) p by auto
    qed
    from within above show ?thesis by (rule conjI)
  next
    assume n: "v = NegZero"
    have "Percentage_equals (Percentage (Fin 0)) (Percentage NegZero)"
      by (simp add: Percentage_equals_def num_eq_def is_zero_def)
    then show ?thesis
      using n p conjugate_NegZero conjugate_one
      by (simp add: round_double_small)
  qed
qed

theorem conjugate_twice_witness:
  "new_Percentage (Fin (1 / 4)) = Inr (Percentage (Fin (1 / 4))) \<and>
   is_double (1 / 4) \<and>
   Percentage_conjugate (Percentage (Fin (1 / 4))) = Inr (Percentage (Fin (3 / 4))) \<and>
   Percentage_conjugate (Percentage (Fin (3 / 4))) = Inr (Percentage (Fin (1 / 4))) \<and>
   Percentage_equals (Percentage (Fin (1 / 4))) (Percentage (Fin (1 / 4))) \<and>
   new_Percentage (Fin (3 / 2)) = Inr (Percentage (Fin (3 / 2))) \<and>
   Percentage_conjugate (Percentage (Fin (3 / 2))) = Inl RangeError"
proof -
  have a: "new_Percentage (Fin (1 / 4)) = Inr (Percentage (Fin (1 / 4)))"
    by (simp add: new_Percentage_def)
  have b: "new_Percentage (Fin (3 / 2)) = Inr (Percentage (Fin (3 / 2)))"
    by (simp add: new_Percentage_def)
  have c: "is_double (1 / 4)"
    by (simp add: is_double_def round_eval)
  have d: "Percentage_conjugate (Percentage (Fin (1 / 4))) = Inr (Percentage (Fin (3 / 4)))"
    by (simp add: round_eval new_Percentage_def Percentage_conjugate_def)
  have e: "Percentage_conjugate (Percentage (Fin (3 / 4))) = Inr (Percentage (Fin (1 / 4)))"
    by (simp add: round_eval new_Percentage_def Percentage_conjugate_def)
  have f: "Percentage_equals (Percentage (Fin (1 / 4))) (Percentage (Fin (1 / 4)))"
  proof -
    have le: "\<not> num_lt (Fin 1) (Fin (1 / 4))" by simp
    from conjugate_twice [OF a, THEN conjunct1, rule_format, OF le] obtain q r where
      qr: "Percentage_conjugate (Percentage (Fin (1 / 4))) = Inr q"
          "Percentage_conjugate q = Inr r"
          "is_double (num_real (Fin (1 / 4))) \<and> num_real (valueOf q) = 1 - num_real (Fin (1 / 4)) \<longrightarrow>
             Percentage_equals r (Percentage (Fin (1 / 4)))"
      by blast
    from qr(1) d have q: "q = Percentage (Fin (3 / 4))" by simp
    from qr(2) e q have r: "r = Percentage (Fin (1 / 4))" by simp
    have "num_real (valueOf q) = 1 - num_real (Fin (1 / 4))" using q by simp
    moreover have "is_double (num_real (Fin (1 / 4)))" using c by simp
    ultimately have "Percentage_equals r (Percentage (Fin (1 / 4)))" using qr(3) by blast
    then show ?thesis using r by simp
  qed
  have g: "Percentage_conjugate (Percentage (Fin (3 / 2))) = Inl RangeError"
  proof -
    have gt: "num_lt (Fin 1) (Fin (3 / 2))" by simp
    from conjugate_twice [OF b, THEN conjunct2, rule_format, OF gt] show ?thesis .
  qed
  from a c d e f b g show ?thesis by (intro conjI)
qed

section \<open>The constructor and the square invariant\<close>

lemma length_resize_row [simp]: "length (resize_row n r) = n"
  by (simp add: resize_row_def set_length_def Let_def)

lemma resize_row_id: "length r = n \<Longrightarrow> resize_row n r = r"
  by (simp add: resize_row_def set_length_def Let_def)

lemma height_new_MatrixSquare_FromMatrix [simp]:
  "height (new_MatrixSquare (FromMatrix m)) = height m"
  by (simp add: new_MatrixSquare_def new_Matrix_def Matrix_constructor_def raw_def height_def Let_def)

lemma height_new_MatrixSquare_FromRows [simp]:
  "height (new_MatrixSquare (FromRows rs)) = length rs"
  by (simp add: new_MatrixSquare_def new_Matrix_def Matrix_constructor_def height_def Let_def)

lemma is_square_new_MatrixSquare: "is_square (new_MatrixSquare d)"
  by (cases d) (auto simp: is_square_def new_MatrixSquare_def new_Matrix_def Matrix_constructor_def height_def Let_def)

lemma spread_id: "Hole \<notin> set r \<Longrightarrow> spread r = r"
  unfolding spread_def by (induction r) (auto split: cell.splits)

lemma new_MatrixSquare_FromMatrix_id:
  assumes "is_square m" and "\<forall>r \<in> set (DATA m). Hole \<notin> set r"
  shows "new_MatrixSquare (FromMatrix m) = Matrix MatrixSquareClass (DATA m)"
proof -
  have "map (\<lambda>r. resize_row (length (DATA m)) (spread r)) (DATA m) = DATA m"
  proof (rule map_idI)
    fix r assume r: "r \<in> set (DATA m)"
    then have "spread r = r" using assms(2) by (simp add: spread_id)
    moreover have "length r = length (DATA m)"
      using assms(1) r by (simp add: is_square_def height_def)
    ultimately show "resize_row (length (DATA m)) (spread r) = r"
      by (simp add: resize_row_id)
  qed
  then have "map (resize_row (length (DATA m))) (map spread (DATA m)) = DATA m"
    by (simp add: o_def)
  then show ?thesis
    by (simp add: new_MatrixSquare_def Matrix_constructor_def raw_def Let_def)
qed

lemma cls_new_MatrixSquare [simp]: "cls (new_MatrixSquare d) = MatrixSquareClass"
  by (simp add: new_MatrixSquare_def Let_def)

lemma cls_new_Matrix [simp]: "cls (new_Matrix g) = MatrixClass"
  by (simp add: new_Matrix_def)

lemma width_square: "is_square m \<Longrightarrow> width m = height m"
  by (cases m) (auto simp: is_square_def width_def height_def split: list.splits)

lemma numeric_no_hole: "numeric m \<Longrightarrow> r \<in> set (DATA m) \<Longrightarrow> Hole \<notin> set r"
  by (metis numeric_def is_number.simps(2))


lemmas matrix_eval = MatrixSquare_size_def height_def width_def Matrix_at_def get_def
  MatrixSquare_minor_def Matrix_minor_def new_MatrixSquare_def new_Matrix_def Matrix_constructor_def raw_def
  spread_def resize_row_def set_length_def delete_at_def reduce_add_def sign_def
  Matrix_transposition_def MatrixSquare_transposition_def MatrixSquare_scale_def
  Matrix_scale_def det.simps

text \<open>
  The two models of the constructor agree: the rows the instance reads through the heap
  are the rows of the value the constructor returns.
\<close>

lemma resize_row_idem: "resize_row n (resize_row n r) = resize_row n r"
  by (simp add: resize_row_id)

lemma foldl_resize_row_at:
  "foldl (resize_row_at n) h rs r
     = (if r \<in> set rs then map_option (resize_row n) (h r) else h r)"
proof (induction rs arbitrary: h)
  case Nil
  then show ?case by simp
next
  case (Cons x xs)
  have step: "resize_row_at n h x r' = (if r' = x then map_option (resize_row n) (h r') else h r')"
    for r' by (simp add: resize_row_at_def split: option.splits)
  show ?case
    by (cases "h r") (auto simp: Cons.IH step resize_row_idem)
qed

lemma new_MatrixSquare_heap_rows:
  assumes "set rs \<subseteq> dom h"
  shows "map (\<lambda>r. the (fst (new_MatrixSquare_heap h rs) r)) (snd (new_MatrixSquare_heap h rs))
           = DATA (new_MatrixSquare (FromRows (map (\<lambda>r. ArrayRow (the (h r))) rs)))"
proof -
  have "the (foldl (resize_row_at (length rs)) h rs r) = resize_row (length rs) (the (h r))"
    if "r \<in> set rs" for r
  proof -
    from that assms obtain x where "h r = Some x" by auto
    then show ?thesis using that by (simp add: foldl_resize_row_at)
  qed
  then show ?thesis
    by (simp add: new_MatrixSquare_heap_def new_MatrixSquare_def new_Matrix_def Matrix_constructor_def Let_def o_def)
qed

text \<open>
  A row shorter than the row count ends in holes, and a caller's row whose length is not
  the row count is changed by the constructor.
\<close>

lemma resize_row_short:
  assumes "length r < n" and "length r \<le> k" and "k < n"
  shows "resize_row n r ! k = Hole"
  using assms by (simp add: resize_row_def set_length_def Let_def nth_append)

lemma new_MatrixSquare_heap_changes_row:
  assumes "r \<in> set rs" and "h r = Some row" and "length row \<noteq> length rs"
  shows "fst (new_MatrixSquare_heap h rs) r = Some (resize_row (length rs) row)"
    and "resize_row (length rs) row \<noteq> row"
proof -
  show "fst (new_MatrixSquare_heap h rs) r = Some (resize_row (length rs) row)"
    using assms(1,2) by (simp add: new_MatrixSquare_heap_def foldl_resize_row_at)
  show "resize_row (length rs) row \<noteq> row"
  proof
    assume "resize_row (length rs) row = row"
    then have "length (resize_row (length rs) row) = length row" by simp
    with assms(3) show False by simp
  qed
qed

text \<open>
  C5 at the grid \<^verbatim>\<open>[[1], [2, 3]]\<close>: the first row is extended to the row count, and its
  new slot is a hole, not \<open>0\<close>; the copy that \<^verbatim>\<open>fillHoles\<close> returns has the \<open>0\<close>, but it
  is not the array that is stored.
\<close>

theorem constructor_leaves_holes:
  "new_MatrixSquare (FromRows [ArrayRow [Num (Fin 1)], ArrayRow [Num (Fin 2), Num (Fin 3)]])
     = Matrix MatrixSquareClass [[Num (Fin 1), Hole], [Num (Fin 2), Num (Fin 3)]] \<and>
   fillHoles [Num (Fin 1), Hole] (Num (Fin 0)) = [Num (Fin 1), Num (Fin 0)] \<and>
   Matrix MatrixSquareClass [[Num (Fin 1), Hole], [Num (Fin 2), Num (Fin 3)]]
     \<noteq> Matrix MatrixSquareClass [[Num (Fin 1), Num (Fin 0)], [Num (Fin 2), Num (Fin 3)]]"
  by (simp add: matrix_eval fillHoles_def)

text \<open>
  C7 at the rows \<^verbatim>\<open>r0 = [1, 2, 3]\<close> and \<^verbatim>\<open>r1 = [4, 5]\<close> (references \<open>0\<close> and
  \<open>1\<close>): after \<^verbatim>\<open>new MatrixSquare([r0, r1])\<close> the caller's \<^verbatim>\<open>r0\<close> is
  \<^verbatim>\<open>[1, 2]\<close>, and the rows of the instance are the caller's two arrays.
\<close>

theorem constructor_changes_caller_rows:
  "fst (new_MatrixSquare_heap
          [0 \<mapsto> [Num (Fin 1), Num (Fin 2), Num (Fin 3)], 1 \<mapsto> [Num (Fin 4), Num (Fin 5)]]
          [0, 1]) 0
     = Some [Num (Fin 1), Num (Fin 2)] \<and>
   snd (new_MatrixSquare_heap
          [0 \<mapsto> [Num (Fin 1), Num (Fin 2), Num (Fin 3)], 1 \<mapsto> [Num (Fin 4), Num (Fin 5)]]
          [0, 1])
     = [0, 1]"
  by (simp add: new_MatrixSquare_heap_def resize_row_at_def resize_row_def set_length_def)

section \<open>The operations narrowed to MatrixSquare\<close>

lemma get_not_Hole [simp]: "get r j \<noteq> Hole" "Hole \<noteq> get r j"
  by (simp_all add: get_def split: cell.splits)

lemma height_Matrix_transposition: "height (Matrix_transposition m) = width m"
  by (simp add: Matrix_transposition_def new_Matrix_def Matrix_constructor_def height_def)

lemma is_square_Matrix_transposition:
  assumes "is_square m"
  shows "is_square (Matrix_transposition m)"
proof -
  have "width m = height m" using assms by (rule width_square)
  then show ?thesis
    by (auto simp: is_square_def Matrix_transposition_def new_Matrix_def Matrix_constructor_def height_def)
qed

lemma no_hole_Matrix_transposition:
  "\<forall>r \<in> set (DATA (Matrix_transposition m)). Hole \<notin> set r"
  by (auto simp: Matrix_transposition_def new_Matrix_def Matrix_constructor_def)

lemma height_Matrix_minor:
  "Matrix_minor m r c = Inr m' \<Longrightarrow> height m' = height m - 1"
  by (auto simp: Matrix_minor_def new_Matrix_def Matrix_constructor_def height_def delete_at_def split: if_splits)

lemma height_Matrix_scale: "height (Matrix_scale m s) = height m"
  by (simp add: Matrix_scale_def new_Matrix_def Matrix_constructor_def height_def)

lemma height_Matrix_times: "Matrix_times m other = Inr m' \<Longrightarrow> height m' = height m"
  by (auto simp: Matrix_times_def new_Matrix_def Matrix_constructor_def height_def split: if_splits)

lemma cls_Matrix_transposition: "cls (Matrix_transposition m) = MatrixClass"
  by (simp add: Matrix_transposition_def)

text \<open>
  What the four operations return for a square \<open>A\<close>: each result has a square grid, and
  the grid of the transposition is the one the constructor would store.  The results of
  \<^verbatim>\<open>minor\<close>, \<^verbatim>\<open>scale\<close> and \<^verbatim>\<open>times\<close> come out of the MatrixSquare constructor; the
  result of \<^verbatim>\<open>transposition\<close> is the object the Matrix getter built.
\<close>

lemma square_operations:
  assumes "is_square A"
  shows "DATA (MatrixSquare_transposition A)
           = DATA (new_MatrixSquare (FromMatrix (Matrix_transposition A))) \<and>
         MatrixSquare_minor A r c
           = map_sum id (\<lambda>m. new_MatrixSquare (FromMatrix m)) (Matrix_minor A r c) \<and>
         MatrixSquare_scale A s = new_MatrixSquare (FromMatrix (Matrix_scale A s)) \<and>
         MatrixSquare_times A B
           = map_sum id (\<lambda>m. new_MatrixSquare (FromMatrix m)) (Matrix_times A B) \<and>
         is_square (MatrixSquare_transposition A) \<and>
         height (MatrixSquare_transposition A) = height A \<and>
         (\<forall>M. MatrixSquare_minor A r c = Inr M \<longrightarrow>
               cls M = MatrixSquareClass \<and> is_square M \<and>
               MatrixSquare_size M = MatrixSquare_size A - 1) \<and>
         cls (MatrixSquare_scale A s) = MatrixSquareClass \<and>
         is_square (MatrixSquare_scale A s) \<and>
         MatrixSquare_size (MatrixSquare_scale A s) = MatrixSquare_size A \<and>
         (\<forall>M. MatrixSquare_times A B = Inr M \<longrightarrow>
               cls M = MatrixSquareClass \<and> is_square M \<and>
               MatrixSquare_size M = MatrixSquare_size A)"
proof -
  have t1: "DATA (MatrixSquare_transposition A)
           = DATA (new_MatrixSquare (FromMatrix (Matrix_transposition A)))"
    using assms
    by (simp add: MatrixSquare_transposition_def new_MatrixSquare_FromMatrix_id
        is_square_Matrix_transposition no_hole_Matrix_transposition)
  have t2: "MatrixSquare_minor A r c
           = map_sum id (\<lambda>m. new_MatrixSquare (FromMatrix m)) (Matrix_minor A r c)"
    by (simp add: MatrixSquare_minor_def split: sum.splits)
  have t3: "MatrixSquare_scale A s = new_MatrixSquare (FromMatrix (Matrix_scale A s))"
    by (simp add: MatrixSquare_scale_def)
  have t4: "MatrixSquare_times A B
           = map_sum id (\<lambda>m. new_MatrixSquare (FromMatrix m)) (Matrix_times A B)"
    by (simp add: MatrixSquare_times_def split: sum.splits)
  have s1: "is_square (MatrixSquare_transposition A)"
    using assms by (simp add: MatrixSquare_transposition_def is_square_Matrix_transposition)
  have s2: "height (MatrixSquare_transposition A) = height A"
    using assms
    by (simp add: MatrixSquare_transposition_def height_Matrix_transposition width_square)
  have s3: "\<forall>M. MatrixSquare_minor A r c = Inr M \<longrightarrow>
               cls M = MatrixSquareClass \<and> is_square M \<and>
               MatrixSquare_size M = MatrixSquare_size A - 1"
    by (auto simp: MatrixSquare_minor_def MatrixSquare_size_def is_square_new_MatrixSquare
        height_Matrix_minor split: sum.splits)
  have s4: "cls (MatrixSquare_scale A s) = MatrixSquareClass"
    by (simp add: MatrixSquare_scale_def)
  have s5: "is_square (MatrixSquare_scale A s)"
    by (simp add: MatrixSquare_scale_def is_square_new_MatrixSquare)
  have s6: "MatrixSquare_size (MatrixSquare_scale A s) = MatrixSquare_size A"
    by (simp add: MatrixSquare_scale_def MatrixSquare_size_def height_Matrix_scale)
  have s7: "\<forall>M. MatrixSquare_times A B = Inr M \<longrightarrow>
               cls M = MatrixSquareClass \<and> is_square M \<and>
               MatrixSquare_size M = MatrixSquare_size A"
    by (auto simp: MatrixSquare_times_def MatrixSquare_size_def is_square_new_MatrixSquare
        height_Matrix_times split: sum.splits)
  from t1 t2 t3 t4 s1 s2 s3 s4 s5 s6 s7 show ?thesis by (intro conjI)
qed

text \<open>
  C6 at the matrix \<^verbatim>\<open>[[1, 2], [3, 4]]\<close>: \<^verbatim>\<open>A.scale(2)\<close> and \<^verbatim>\<open>A.minor(0, 0)\<close> are
  instances of MatrixSquare, \<^verbatim>\<open>A.transposition\<close> is an object of class Matrix, for
  which \<^verbatim>\<open>det\<close> is not defined.
\<close>

theorem transposition_is_not_wrapped:
  "new_MatrixSquare (FromRows [ArrayRow [Num (Fin 1), Num (Fin 2)],
                               ArrayRow [Num (Fin 3), Num (Fin 4)]])
     = Matrix MatrixSquareClass [[Num (Fin 1), Num (Fin 2)], [Num (Fin 3), Num (Fin 4)]] \<and>
   MatrixSquare_scale
       (Matrix MatrixSquareClass [[Num (Fin 1), Num (Fin 2)], [Num (Fin 3), Num (Fin 4)]]) (Fin 2)
     = Matrix MatrixSquareClass [[Num (Fin 2), Num (Fin 4)], [Num (Fin 6), Num (Fin 8)]] \<and>
   MatrixSquare_minor
       (Matrix MatrixSquareClass [[Num (Fin 1), Num (Fin 2)], [Num (Fin 3), Num (Fin 4)]]) 0 0
     = Inr (Matrix MatrixSquareClass [[Num (Fin 4)]]) \<and>
   MatrixSquare_transposition
       (Matrix MatrixSquareClass [[Num (Fin 1), Num (Fin 2)], [Num (Fin 3), Num (Fin 4)]])
     = Matrix MatrixClass [[Num (Fin 1), Num (Fin 3)], [Num (Fin 2), Num (Fin 4)]] \<and>
   read_det (Matrix MatrixClass [[Num (Fin 1), Num (Fin 3)], [Num (Fin 2), Num (Fin 4)]])
     = Inr Undef"
proof -
  let ?A = "Matrix MatrixSquareClass [[Num (Fin 1), Num (Fin 2)], [Num (Fin 3), Num (Fin 4)]]"
  have a: "new_MatrixSquare (FromRows [ArrayRow [Num (Fin 1), Num (Fin 2)],
                               ArrayRow [Num (Fin 3), Num (Fin 4)]]) = ?A"
    by (simp add: matrix_eval)
  have b: "MatrixSquare_scale ?A (Fin 2)
     = Matrix MatrixSquareClass [[Num (Fin 2), Num (Fin 4)], [Num (Fin 6), Num (Fin 8)]]"
    by (simp add: matrix_eval round_eval)
  have c: "MatrixSquare_minor ?A 0 0 = Inr (Matrix MatrixSquareClass [[Num (Fin 4)]])"
    by (simp add: matrix_eval)
  have d: "MatrixSquare_transposition ?A
     = Matrix MatrixClass [[Num (Fin 1), Num (Fin 3)], [Num (Fin 2), Num (Fin 4)]]"
    by (simp add: matrix_eval upt_conv_Cons)
  have e: "read_det (Matrix MatrixClass [[Num (Fin 1), Num (Fin 3)], [Num (Fin 2), Num (Fin 4)]])
     = Inr Undef"
    by (simp add: read_det_def)
  from a b c d e show ?thesis by (intro conjI)
qed

section \<open>Determinant and reciprocal\<close>

text \<open>
  The reciprocal of the empty MatrixSquare \<^verbatim>\<open>new MatrixSquare()\<close>: the first thing the
  getter does is to read \<^verbatim>\<open>this.det\<close>, which throws for the empty matrix.
\<close>

theorem reciprocal_empty_counterexample:
  "MatrixSquare_size (new_MatrixSquare (FromRows [])) = 0 \<and>
   det (new_MatrixSquare (FromRows [])) = Inl TypeError \<and>
   MatrixSquare_reciprocal (new_MatrixSquare (FromRows [])) = Inl TypeError"
  by (simp add: MatrixSquare_reciprocal_def matrix_eval)

text \<open>
  C1, as the code has it: if \<^verbatim>\<open>A.det === 0\<close> (the determinant is one of the two zeros)
  then \<^verbatim>\<open>A.reciprocal\<close> fails with a TypeError, and for \<^verbatim>\<open>A\<close> of size \<open>0\<close> it fails
  with a TypeError as well (the one \<^verbatim>\<open>det\<close> throws), as the documentation of the getter
  says.
\<close>

theorem reciprocal_fails:
  "(\<forall>d. det A = Inr d \<and> strict_eq d (Num (Fin 0)) \<longrightarrow>
        MatrixSquare_reciprocal A = Inl TypeError) \<and>
   (MatrixSquare_size A = 0 \<longrightarrow> MatrixSquare_reciprocal A = Inl TypeError)"
proof (intro conjI allI impI)
  fix d
  assume "det A = Inr d \<and> strict_eq d (Num (Fin 0))"
  then show "MatrixSquare_reciprocal A = Inl TypeError"
    by (simp add: MatrixSquare_reciprocal_def)
next
  assume "MatrixSquare_size A = 0"
  then have "det A = Inl TypeError" by (simp add: det.simps [of A])
  then show "MatrixSquare_reciprocal A = Inl TypeError"
    by (simp add: MatrixSquare_reciprocal_def)
qed

theorem reciprocal_fails_witness:
  "det (Matrix MatrixSquareClass [[Num (Fin 0)]]) = Inr (Num (Fin 0)) \<and>
   strict_eq (Num (Fin 0)) (Num (Fin 0)) \<and>
   MatrixSquare_reciprocal (Matrix MatrixSquareClass [[Num (Fin 0)]]) = Inl TypeError \<and>
   det (Matrix MatrixSquareClass [[Num NegZero]]) = Inr (Num NegZero) \<and>
   strict_eq (Num NegZero) (Num (Fin 0)) \<and>
   MatrixSquare_reciprocal (Matrix MatrixSquareClass [[Num NegZero]]) = Inl TypeError \<and>
   MatrixSquare_size (Matrix MatrixSquareClass []) = 0 \<and>
   MatrixSquare_reciprocal (Matrix MatrixSquareClass []) = Inl TypeError"
proof -
  have a: "det (Matrix MatrixSquareClass [[Num (Fin 0)]]) = Inr (Num (Fin 0))"
    by (simp add: matrix_eval)
  have a': "strict_eq (Num (Fin 0)) (Num (Fin 0))"
    by (simp add: num_eq_def)
  have b: "det (Matrix MatrixSquareClass [[Num NegZero]]) = Inr (Num NegZero)"
    by (simp add: matrix_eval)
  have b': "strict_eq (Num NegZero) (Num (Fin 0))"
    by (simp add: num_eq_def is_zero_def)
  have c: "MatrixSquare_size (Matrix MatrixSquareClass []) = 0"
    by (simp add: matrix_eval)
  from reciprocal_fails [of "Matrix MatrixSquareClass [[Num (Fin 0)]]", THEN conjunct1,
         rule_format, OF conjI, OF a a']
       reciprocal_fails [of "Matrix MatrixSquareClass [[Num NegZero]]", THEN conjunct1,
         rule_format, OF conjI, OF b b']
       reciprocal_fails [of "Matrix MatrixSquareClass []", THEN conjunct2, rule_format, OF c]
       a a' b b' c
  show ?thesis by (intro conjI)
qed

text \<open>
  C3 at the matrix \<^verbatim>\<open>[[1, 2], [3, 4]]\<close>: the determinant is \<open>-2\<close>.  In
  \<^verbatim>\<open>reciprocal\<close> the transposition is an object of class Matrix, its minors are Matrix
  objects, and their \<^verbatim>\<open>det\<close> is \<^verbatim>\<open>undefined\<close>: every cofactor is NaN, and so is
  every cell of the result.
\<close>

theorem det_reciprocal_example:
  "det (Matrix MatrixSquareClass [[Num (Fin 1), Num (Fin 2)], [Num (Fin 3), Num (Fin 4)]])
     = Inr (Num (Fin (- 2))) \<and>
   call_minor (MatrixSquare_transposition
       (Matrix MatrixSquareClass [[Num (Fin 1), Num (Fin 2)], [Num (Fin 3), Num (Fin 4)]])) 0 0
     = Inr (Matrix MatrixClass [[Num (Fin 4)]]) \<and>
   read_det (Matrix MatrixClass [[Num (Fin 4)]]) = Inr Undef \<and>
   MatrixSquare_reciprocal
       (Matrix MatrixSquareClass [[Num (Fin 1), Num (Fin 2)], [Num (Fin 3), Num (Fin 4)]])
     = Inr (Matrix MatrixSquareClass [[Num NaN, Num NaN], [Num NaN, Num NaN]])"
proof -
  let ?A = "Matrix MatrixSquareClass [[Num (Fin 1), Num (Fin 2)], [Num (Fin 3), Num (Fin 4)]]"
  have a: "det ?A = Inr (Num (Fin (- 2)))"
    by (simp add: matrix_eval round_eval)
  have b: "call_minor (MatrixSquare_transposition ?A) 0 0 = Inr (Matrix MatrixClass [[Num (Fin 4)]])"
    by (simp add: call_minor_def matrix_eval upt_conv_Cons)
  have c: "read_det (Matrix MatrixClass [[Num (Fin 4)]]) = Inr Undef"
    by (simp add: read_det_def)
  have d: "MatrixSquare_reciprocal ?A
     = Inr (Matrix MatrixSquareClass [[Num NaN, Num NaN], [Num NaN, Num NaN]])"
    by (simp add: MatrixSquare_reciprocal_def call_minor_def read_det_def matrix_eval round_eval
        num_eq_def is_zero_def upt_conv_Cons)
  from a b c d show ?thesis by (intro conjI)
qed

section \<open>Minors of a square matrix of numbers\<close>

lemma set_delete_at: "set (delete_at i xs) \<subseteq> set xs"
  unfolding delete_at_def using set_take_subset [of i xs] set_drop_subset [of "Suc i" xs]
  by auto

lemma length_delete_at: "i < length xs \<Longrightarrow> length (delete_at i xs) = length xs - 1"
  by (auto simp: delete_at_def)

lemma nth_delete_at:
  "i < length xs \<Longrightarrow> k < length xs - 1 \<Longrightarrow>
     delete_at i xs ! k = (if k < i then xs ! k else xs ! Suc k)"
  by (auto simp: delete_at_def nth_append min_def)

lemma square_matrixD:
  assumes "square_matrix A"
  shows "is_square A" and "numeric A" and "width A = height A"
    and "\<And>r. r \<in> set (DATA A) \<Longrightarrow> length r = height A"
    and "\<And>r c. r \<in> set (DATA A) \<Longrightarrow> c \<in> set r \<Longrightarrow> is_number c"
  using assms by (auto simp: square_matrix_def is_square_def numeric_def width_square)

lemma square_matrix_minor:
  assumes "square_matrix A" and "r < MatrixSquare_size A" and "c < MatrixSquare_size A"
  defines "M \<equiv> Matrix MatrixSquareClass (map (delete_at c) (delete_at r (DATA A)))"
  shows "MatrixSquare_minor A (int r) (int c) = Inr M"
    and "square_matrix M"
    and "MatrixSquare_size M = MatrixSquare_size A - 1"
proof -
  note A = square_matrixD [OF assms(1)]
  have r: "r < height A" and c: "c < height A"
    using assms(2,3) by (simp_all add: MatrixSquare_size_def)
  have rows: "set (delete_at r (DATA A)) \<subseteq> set (DATA A)" by (rule set_delete_at)
  have len: "length (delete_at r (DATA A)) = height A - 1"
    using r by (simp add: length_delete_at height_def)
  have sq: "is_square M"
    using rows A(4) c len
    by (auto simp: is_square_def M_def height_def length_delete_at)
  have num: "numeric M"
    using rows A(5) set_delete_at [of c]
    by (fastforce simp: numeric_def M_def)
  show "square_matrix M" using sq num by (simp add: square_matrix_def M_def)
  show "MatrixSquare_size M = MatrixSquare_size A - 1"
    using len by (simp add: MatrixSquare_size_def M_def height_def)
  let ?M0 = "Matrix MatrixClass (map (delete_at c) (delete_at r (DATA A)))"
  have "Matrix_minor A (int r) (int c) = Inr ?M0"
    using r c A(3) by (simp add: Matrix_minor_def new_Matrix_def Matrix_constructor_def)
  moreover have "new_MatrixSquare (FromMatrix ?M0) = M"
  proof -
    have "is_square ?M0" using sq by (simp add: is_square_def M_def height_def)
    moreover have "\<forall>x \<in> set (DATA ?M0). Hole \<notin> set x"
      using numeric_no_hole [OF num] by (simp add: M_def)
    ultimately show ?thesis
      using new_MatrixSquare_FromMatrix_id [of ?M0] by (simp add: M_def)
  qed
  ultimately show "MatrixSquare_minor A (int r) (int c) = Inr M"
    by (simp add: MatrixSquare_minor_def)
qed

lemma sign_power: "sign j = Fin ((- 1) ^ j)"
  by (cases "even j") (auto simp: sign_def even_iff_mod_2_eq_zero)

lemma det_terms_numeric:
  assumes "\<forall>c \<in> set cells. is_number c"
    and "\<forall>k < length cells. \<exists>m d. MatrixSquare_minor A 0 (int (j + k)) = Inr m \<and> det m = Inr (Num d)"
  shows "det_terms A j cells =
           Inr (map (\<lambda>k. Num (num_mul (num_mul (sign (j + k)) (ToNumber (cells ! k)))
                                       (minor_det A (j + k))))
                    [0..<length cells])"
  using assms
proof (induction cells arbitrary: j)
  case Nil
  then show ?case by simp
next
  case (Cons c cs)
  from Cons.prems(1) have c: "c \<noteq> Hole" by auto
  from Cons.prems(2) [rule_format, of 0] obtain m d where
    m: "MatrixSquare_minor A 0 (int j) = Inr m" "det m = Inr (Num d)" by auto
  have md: "minor_det A j = d" using m by (simp add: minor_det_def)
  have "\<forall>k < length cs. \<exists>m d. MatrixSquare_minor A 0 (int (Suc j + k)) = Inr m \<and> det m = Inr (Num d)"
    using Cons.prems(2) by (metis add_Suc_shift length_Cons Suc_less_eq)
  with Cons.IH [of "Suc j"] Cons.prems(1)
  have rest: "det_terms A (Suc j) cs =
           Inr (map (\<lambda>k. Num (num_mul (num_mul (sign (Suc j + k)) (ToNumber (cs ! k)))
                                       (minor_det A (Suc j + k))))
                    [0..<length cs])" by simp
  show ?case
    using c m md rest
    by (simp add: map_upt_Suc del: upt_Suc)
qed


lemma foldl_Num:
  "foldl (\<lambda>a b. Num (num_add (ToNumber a) (ToNumber b))) (Num x) (map Num ys)
     = Num (foldl num_add x ys)"
  by (induction ys arbitrary: x) simp_all

lemma reduce_add_Num: "reduce_add (Num x # map Num ys) = Inr (Num (foldl num_add x ys))"
proof -
  have "filter (\<lambda>c. c \<noteq> Hole) (map Num ys) = map Num ys"
    by (induction ys) simp_all
  then show ?thesis by (simp add: reduce_add_def foldl_Num)
qed

lemma cofactor_term_sign:
  "cofactor_term A k = num_mul (num_mul (sign k) (ToNumber (DATA A ! 0 ! k))) (minor_det A k)"
  by (simp add: cofactor_term_def sign_power)

lemma det_square_matrix:
  assumes "square_matrix A" and "MatrixSquare_size A = n" and "0 < n"
  shows "(\<exists>d. det A = Inr (Num d)) \<and> (2 \<le> n \<longrightarrow> det A = Inr (Num (cofactor_expansion A)))"
  using assms
proof (induction n arbitrary: A)
  case 0
  then show ?case by simp
next
  case (Suc n)
  note A = square_matrixD [OF Suc.prems(1)]
  have h: "height A = Suc n" using Suc.prems(2) by (simp add: MatrixSquare_size_def)
  then obtain row0 rows where data: "DATA A = row0 # rows"
    by (cases "DATA A") (auto simp: height_def)
  have row0: "length row0 = Suc n" "\<forall>c \<in> set row0. is_number c"
    using A(4) [of row0] A(5) [of row0] data h by auto
  show ?case
  proof (cases "n = 0")
    case True
    from row0 True obtain c where c: "row0 = [c]" "is_number c"
      by (cases row0) auto
    then obtain x where "c = Num x" by (cases c) auto
    with c True h data A(3) show ?thesis
      by (simp add: det.simps [of A] MatrixSquare_size_def Matrix_at_def get_def)
  next
    case False
    then have n: "0 < n" by simp
    have minors: "\<forall>k < length row0. \<exists>m d.
        MatrixSquare_minor A 0 (int (0 + k)) = Inr m \<and> det m = Inr (Num d)"
    proof (intro allI impI)
      fix k assume "k < length row0"
      then have k: "k < MatrixSquare_size A" using row0 Suc.prems(2) by simp
      have z: "0 < MatrixSquare_size A" using Suc.prems(2) by simp
      from square_matrix_minor [OF Suc.prems(1) z k]
      have m: "MatrixSquare_minor A (int 0) (int k)
                 = Inr (Matrix MatrixSquareClass (map (delete_at k) (delete_at 0 (DATA A))))"
        "square_matrix (Matrix MatrixSquareClass (map (delete_at k) (delete_at 0 (DATA A))))"
        "MatrixSquare_size (Matrix MatrixSquareClass (map (delete_at k) (delete_at 0 (DATA A)))) = n"
        using Suc.prems(2) by simp_all
      from Suc.IH [OF m(2) m(3) n] m(1)
      show "\<exists>m d. MatrixSquare_minor A 0 (int (0 + k)) = Inr m \<and> det m = Inr (Num d)"
        by auto
    qed
    have terms: "det_terms A 0 row0 =
        Inr (map (\<lambda>k. Num (cofactor_term A k)) [0..<Suc n])"
      using det_terms_numeric [OF row0(2) minors] row0(1) data
      by (simp add: cofactor_term_sign del: upt_Suc)
    have split: "map (\<lambda>k. Num (cofactor_term A k)) [0..<Suc n]
            = Num (cofactor_term A 0) # map Num (map (cofactor_term A) [1..<Suc n])"
      by (simp add: upt_conv_Cons del: upt_Suc)
    have "det A = reduce_add (map (\<lambda>k. Num (cofactor_term A k)) [0..<Suc n])"
      using terms h n data
      by (simp add: det.simps [of A] MatrixSquare_size_def del: upt_Suc)
    also have "\<dots> = reduce_add (Num (cofactor_term A 0)
                                     # map Num (map (cofactor_term A) [1..<Suc n]))"
      by (simp only: split)
    also have "\<dots> = Inr (Num (foldl num_add (cofactor_term A 0)
                                          (map (cofactor_term A) [1..<Suc n])))"
      by (rule reduce_add_Num)
    finally have "det A = Inr (Num (foldl num_add (cofactor_term A 0)
                                          (map (cofactor_term A) [1..<Suc n])))" .
    then show ?thesis
      using Suc.prems(2) by (simp add: cofactor_expansion_def)
  qed
qed

text \<open>
  On a square grid of numbers, one without holes, \<^verbatim>\<open>det\<close> fails with a TypeError at
  size \<open>0\<close>, is the single cell at size \<open>1\<close>, and otherwise is the cofactor expansion
  along row \<open>0\<close>, the sum over \<open>j\<close> of \<open>(-1) ^ j * cell[0][j] * minor(0, j).det\<close>,
  where every minor is a MatrixSquare of size \<open>size - 1\<close> whose determinant is a number.
\<close>

lemma det_cofactor_expansion:
  assumes "square_matrix A"
  shows "(MatrixSquare_size A = 0 \<longrightarrow> det A = Inl TypeError) \<and>
         (MatrixSquare_size A = 1 \<longrightarrow> det A = Inr (DATA A ! 0 ! 0)) \<and>
         (2 \<le> MatrixSquare_size A \<longrightarrow>
            det A = Inr (Num (cofactor_expansion A)) \<and>
            (\<forall>j < MatrixSquare_size A. \<exists>m d.
                MatrixSquare_minor A 0 (int j) = Inr m \<and> square_matrix m \<and>
                MatrixSquare_size m = MatrixSquare_size A - 1 \<and>
                det m = Inr (Num d) \<and> minor_det A j = d))"
proof (intro conjI impI allI)
  assume "MatrixSquare_size A = 0"
  then show "det A = Inl TypeError" by (simp add: det.simps [of A])
next
  assume one: "MatrixSquare_size A = 1"
  note A = square_matrixD [OF assms]
  have h: "height A = 1" using one by (simp add: MatrixSquare_size_def)
  then obtain row0 where data: "DATA A = [row0]"
    by (cases "DATA A") (auto simp: height_def)
  have "length row0 = 1" "\<forall>c \<in> set row0. is_number c"
    using A(4) [of row0] A(5) [of row0] data h by auto
  then obtain x where "row0 = [Num x]"
    by (cases row0) (auto elim: is_number.elims)
  with data h A(3) one show "det A = Inr (DATA A ! 0 ! 0)"
    by (simp add: det.simps [of A] Matrix_at_def get_def)
next
  assume two: "2 \<le> MatrixSquare_size A"
  then show "det A = Inr (Num (cofactor_expansion A))"
    using det_square_matrix [OF assms refl] by simp
next
  fix j
  assume two: "2 \<le> MatrixSquare_size A" and j: "j < MatrixSquare_size A"
  let ?M = "Matrix MatrixSquareClass (map (delete_at j) (delete_at 0 (DATA A)))"
  have pos: "0 < MatrixSquare_size A" using two by simp
  note m = square_matrix_minor [OF assms pos j]
  have "0 < MatrixSquare_size ?M" using m(3) two by simp
  with det_square_matrix [OF m(2) refl] obtain d where d: "det ?M = Inr (Num d)" by blast
  have "minor_det A j = d" using m(1) d by (simp add: minor_det_def)
  with m d show "\<exists>m d. MatrixSquare_minor A 0 (int j) = Inr m \<and> square_matrix m \<and>
                MatrixSquare_size m = MatrixSquare_size A - 1 \<and>
                det m = Inr (Num d) \<and> minor_det A j = d"
    by auto
qed

lemma det_cofactor_expansion_example:
  "square_matrix (Matrix MatrixSquareClass []) \<and> MatrixSquare_size (Matrix MatrixSquareClass []) = 0 \<and>
   det (Matrix MatrixSquareClass []) = Inl TypeError \<and>
   square_matrix (Matrix MatrixSquareClass [[Num (Fin 5)]]) \<and> MatrixSquare_size (Matrix MatrixSquareClass [[Num (Fin 5)]]) = 1 \<and>
   det (Matrix MatrixSquareClass [[Num (Fin 5)]]) = Inr (Num (Fin 5)) \<and>
   square_matrix (Matrix MatrixSquareClass [[Num (Fin 1), Num (Fin 2)], [Num (Fin 3), Num (Fin 4)]]) \<and>
   2 \<le> MatrixSquare_size (Matrix MatrixSquareClass [[Num (Fin 1), Num (Fin 2)], [Num (Fin 3), Num (Fin 4)]]) \<and>
   det (Matrix MatrixSquareClass [[Num (Fin 1), Num (Fin 2)], [Num (Fin 3), Num (Fin 4)]])
     = Inr (Num (cofactor_expansion
                  (Matrix MatrixSquareClass [[Num (Fin 1), Num (Fin 2)], [Num (Fin 3), Num (Fin 4)]]))) \<and>
   cofactor_expansion (Matrix MatrixSquareClass [[Num (Fin 1), Num (Fin 2)], [Num (Fin 3), Num (Fin 4)]])
     = Fin (- 2)"
proof -
  let ?A = "Matrix MatrixSquareClass [[Num (Fin 1), Num (Fin 2)], [Num (Fin 3), Num (Fin 4)]]"
  have a0: "square_matrix (Matrix MatrixSquareClass [])"
    by (simp add: square_matrix_def is_square_def numeric_def)
  have a1: "square_matrix (Matrix MatrixSquareClass [[Num (Fin 5)]])"
    by (simp add: square_matrix_def is_square_def numeric_def height_def)
  have a2: "square_matrix ?A"
    by (simp add: square_matrix_def is_square_def numeric_def height_def)
  have s0: "MatrixSquare_size (Matrix MatrixSquareClass []) = 0"
    by (simp add: MatrixSquare_size_def height_def)
  have s1: "MatrixSquare_size (Matrix MatrixSquareClass [[Num (Fin 5)]]) = 1"
    by (simp add: MatrixSquare_size_def height_def)
  have s2: "2 \<le> MatrixSquare_size ?A"
    by (simp add: MatrixSquare_size_def height_def)
  have d0: "det (Matrix MatrixSquareClass []) = Inl TypeError"
    using det_cofactor_expansion [OF a0, THEN conjunct1, rule_format, OF s0] .
  have d1: "det (Matrix MatrixSquareClass [[Num (Fin 5)]]) = Inr (Num (Fin 5))"
    using det_cofactor_expansion [OF a1, THEN conjunct2, THEN conjunct1, rule_format, OF s1]
    by simp
  have d2: "det ?A = Inr (Num (cofactor_expansion ?A))"
    using det_cofactor_expansion [OF a2, THEN conjunct2, THEN conjunct2, rule_format, OF s2]
    by (rule conjunct1)
  have "det ?A = Inr (Num (Fin (- 2)))"
    by (simp add: matrix_eval round_eval)
  with d2 have e: "cofactor_expansion ?A = Fin (- 2)" by simp
  from a0 s0 d0 a1 s1 d1 a2 s2 d2 e show ?thesis by (intro conjI)
qed

text \<open>
  C4 at the grid \<^verbatim>\<open>[[], [1, 2]]\<close>: the constructor leaves row \<open>0\<close> as two holes (the
  defect of C5), the matrix has size \<open>2\<close>, and \<^verbatim>\<open>det\<close> throws a TypeError, since
  \<^verbatim>\<open>map\<close> skips the holes and \<^verbatim>\<open>reduce\<close> finds no element to start from.  The
  cofactor expansion over the stored grid is NaN, a number; on the grid filled with zeros,
  \<^verbatim>\<open>[[0, 0], [1, 2]]\<close>, \<^verbatim>\<open>det\<close> is the cofactor expansion \<open>0 * 2 - 0 * 1 = 0\<close>.
\<close>

theorem det_throws_on_holes:
  "new_MatrixSquare (FromRows [ArrayRow [], ArrayRow [Num (Fin 1), Num (Fin 2)]])
     = Matrix MatrixSquareClass [[Hole, Hole], [Num (Fin 1), Num (Fin 2)]] \<and>
   MatrixSquare_size (Matrix MatrixSquareClass [[Hole, Hole], [Num (Fin 1), Num (Fin 2)]]) = 2 \<and>
   det (Matrix MatrixSquareClass [[Hole, Hole], [Num (Fin 1), Num (Fin 2)]]) = Inl TypeError \<and>
   cofactor_expansion (Matrix MatrixSquareClass [[Hole, Hole], [Num (Fin 1), Num (Fin 2)]])
     = NaN \<and>
   det (Matrix MatrixSquareClass [[Num (Fin 0), Num (Fin 0)], [Num (Fin 1), Num (Fin 2)]])
     = Inr (Num (Fin 0)) \<and>
   cofactor_expansion
       (Matrix MatrixSquareClass [[Num (Fin 0), Num (Fin 0)], [Num (Fin 1), Num (Fin 2)]])
     = Fin 0"
proof -
  let ?H = "Matrix MatrixSquareClass [[Hole, Hole], [Num (Fin 1), Num (Fin 2)]]"
  let ?Z = "Matrix MatrixSquareClass [[Num (Fin 0), Num (Fin 0)], [Num (Fin 1), Num (Fin 2)]]"
  have a: "new_MatrixSquare (FromRows [ArrayRow [], ArrayRow [Num (Fin 1), Num (Fin 2)]]) = ?H"
    by (simp add: matrix_eval)
  have b: "MatrixSquare_size ?H = 2"
    by (simp add: matrix_eval)
  have c: "det ?H = Inl TypeError"
    by (simp add: matrix_eval)
  have d: "cofactor_expansion ?H = NaN"
    by (simp add: cofactor_expansion_def cofactor_term_def minor_det_def matrix_eval)
  have e: "det ?Z = Inr (Num (Fin 0))"
    by (simp add: matrix_eval)
  have f: "cofactor_expansion ?Z = Fin 0"
    by (simp add: cofactor_expansion_def cofactor_term_def minor_det_def matrix_eval)
  from a b c d e f show ?thesis by (intro conjI)
qed

section \<open>The reciprocal of a matrix of size two or more\<close>

text \<open>
  What the example of C3 shows holds at every size from \<open>2\<close>: the minors of the
  transposition are objects of class Matrix, their \<^verbatim>\<open>det\<close> is \<^verbatim>\<open>undefined\<close>, and
  every cell of the reciprocal is NaN.
\<close>

lemma map_cells_const:
  assumes "Hole \<notin> set cells" and "\<forall>k < length cells. f (cells ! k) (j + k) = Inr v"
  shows "map_cells f j cells = Inr (replicate (length cells) v)"
  using assms
proof (induction cells arbitrary: j)
  case Nil
  then show ?case by simp
next
  case (Cons c cs)
  have c: "c \<noteq> Hole" using Cons.prems(1) by auto
  have h: "f c j = Inr v" using Cons.prems(2) [rule_format, of 0] by simp
  have "\<forall>k < length cs. f (cs ! k) (Suc j + k) = Inr v"
    using Cons.prems(2) by (metis add_Suc_shift length_Cons Suc_less_eq nth_Cons_Suc)
  then have "map_cells f (Suc j) cs = Inr (replicate (length cs) v)"
    using Cons.IH [of "Suc j"] Cons.prems(1) by simp
  then show ?case using c h by (cases c) simp_all
qed

lemma mapi_const:
  assumes "\<forall>k < length xs. g (xs ! k) (i + k) = Inr v"
  shows "mapi g i xs = Inr (replicate (length xs) v)"
  using assms
proof (induction xs arbitrary: i)
  case Nil
  then show ?case by simp
next
  case (Cons x xs)
  have h: "g x i = Inr v" using Cons.prems [rule_format, of 0] by simp
  have "\<forall>k < length xs. g (xs ! k) (Suc i + k) = Inr v"
    using Cons.prems by (metis add_Suc_shift length_Cons Suc_less_eq nth_Cons_Suc)
  then have "mapi g (Suc i) xs = Inr (replicate (length xs) v)"
    using Cons.IH [of "Suc i"] by simp
  then show ?case using h by simp
qed

lemma map_cells_const0:
  assumes "Hole \<notin> set cells" and "\<forall>k < length cells. f (cells ! k) k = Inr v"
  shows "map_cells f 0 cells = Inr (replicate (length cells) v)"
  using map_cells_const [of cells f 0 v] assms by simp

lemma mapi_const0:
  assumes "\<forall>k < length xs. g (xs ! k) k = Inr v"
  shows "mapi g 0 xs = Inr (replicate (length xs) v)"
  using mapi_const [of xs g 0 v] assms by simp

lemma new_MatrixSquare_replicate:
  "new_MatrixSquare (FromRows (replicate n (ArrayRow (replicate n c))))
     = Matrix MatrixSquareClass (replicate n (replicate n c))"
  by (simp add: new_MatrixSquare_def Matrix_constructor_def Let_def o_def resize_row_id)

lemma MatrixSquare_scale_NaN:
  "MatrixSquare_scale (Matrix MatrixSquareClass (replicate n (replicate n (Num NaN)))) s
     = Matrix MatrixSquareClass (replicate n (replicate n (Num NaN)))"
proof -
  have "num_mul NaN s = NaN" by (cases s) simp_all
  then have "Matrix_scale (Matrix MatrixSquareClass (replicate n (replicate n (Num NaN)))) s
          = Matrix MatrixClass (replicate n (replicate n (Num NaN)))"
    by (simp add: Matrix_scale_def new_Matrix_def Matrix_constructor_def)
  moreover have "new_MatrixSquare (FromMatrix (Matrix MatrixClass (replicate n (replicate n (Num NaN)))))
          = Matrix MatrixSquareClass (replicate n (replicate n (Num NaN)))"
    using new_MatrixSquare_FromMatrix_id [of "Matrix MatrixClass (replicate n (replicate n (Num NaN)))"]
    by (simp add: is_square_def height_def)
  ultimately show ?thesis by (simp add: MatrixSquare_scale_def)
qed

lemma read_det_transposition_minor:
  assumes "is_square A" and "i < height A" and "j < height A"
  shows "\<exists>m. call_minor (MatrixSquare_transposition A) (int i) (int j) = Inr m \<and>
             read_det m = Inr Undef"
proof -
  let ?T = "MatrixSquare_transposition A"
  have w: "width A = height A" using assms(1) by (rule width_square)
  have c: "cls ?T = MatrixClass"
    by (simp add: MatrixSquare_transposition_def cls_Matrix_transposition)
  have h: "height ?T = height A"
    using w by (simp add: MatrixSquare_transposition_def height_Matrix_transposition)
  have "is_square ?T"
    using assms(1) by (simp add: MatrixSquare_transposition_def is_square_Matrix_transposition)
  then have wT: "width ?T = height A" using h by (simp add: width_square)
  have "Matrix_minor ?T (int i) (int j)
          = Inr (new_Matrix (map (delete_at j) (delete_at i (DATA ?T))))"
    using assms(2,3) h wT by (simp add: Matrix_minor_def)
  then show ?thesis using c by (simp add: call_minor_def read_det_def)
qed

lemma reciprocal_NaN:
  assumes "square_matrix A" and "2 \<le> MatrixSquare_size A"
    and "det A = Inr (Num d)" and "\<not> num_eq d (Fin 0)"
  shows "MatrixSquare_reciprocal A
           = Inr (Matrix MatrixSquareClass
                   (replicate (MatrixSquare_size A) (replicate (MatrixSquare_size A) (Num NaN))))"
proof -
  define n where "n = MatrixSquare_size A"
  note A = square_matrixD [OF assms(1)]
  have h: "height A = n" "length (DATA A) = n"
    by (simp_all add: n_def MatrixSquare_size_def height_def)
  let ?f = "\<lambda>i. \<lambda>(_::cell) j.
              case call_minor (MatrixSquare_transposition A) (int i) (int j) of
                Inl e \<Rightarrow> Inl e
              | Inr m \<Rightarrow>
                  (case read_det m of
                     Inl e \<Rightarrow> Inl e
                   | Inr dm \<Rightarrow> Inr (Num (num_mul (sign (i + j)) (ToNumber dm))))"
  have cellf: "?f i c j = Inr (Num NaN)" if "i < n" "j < n" for i j c
  proof -
    from read_det_transposition_minor [OF A(1), of i j] that h(1) obtain m where
      "call_minor (MatrixSquare_transposition A) (int i) (int j) = Inr m" "read_det m = Inr Undef"
      by auto
    moreover have "num_mul (sign (i + j)) NaN = NaN" by (simp add: sign_def)
    ultimately show ?thesis by simp
  qed
  have rowf: "map_cells (?f i) 0 row = Inr (replicate n (Num NaN))"
    if "i < n" "row \<in> set (DATA A)" for i row
  proof -
    have len: "length row = n" using A(4) [OF that(2)] h(1) by simp
    have "Hole \<notin> set row" using numeric_no_hole [OF A(2) that(2)] .
    moreover have "\<forall>k < length row. ?f i (row ! k) k = Inr (Num NaN)"
      using cellf [OF that(1)] len by simp
    ultimately show ?thesis using map_cells_const0 [of row "?f i" "Num NaN"] len by simp
  qed
  have "mapi (\<lambda>row i. map_cells (?f i) 0 row) 0 (DATA A)
          = Inr (replicate (length (DATA A)) (replicate n (Num NaN)))"
  proof (rule mapi_const0, intro allI impI)
    fix k assume "k < length (DATA A)"
    then show "map_cells (?f k) 0 (DATA A ! k) = Inr (replicate n (Num NaN))"
      using rowf [of k "DATA A ! k"] h(2) by simp
  qed
  then have cof: "mapi (\<lambda>row i. map_cells (?f i) 0 row) 0 (DATA A)
          = Inr (replicate n (replicate n (Num NaN)))"
    using h(2) by simp
  have d: "\<not> strict_eq (Num d) (Num (Fin 0))" using assms(4) by simp
  have size: "MatrixSquare_size A \<noteq> 0" "MatrixSquare_size A \<noteq> 1" using assms(2) by simp_all
  show ?thesis
    unfolding MatrixSquare_reciprocal_def
    using d size
    by (simp add: assms(3) cof new_MatrixSquare_replicate MatrixSquare_scale_NaN n_def [symmetric])
qed

section \<open>Determinants of zero-one matrices\<close>

text \<open>
  The numbers \<open>-1\<close>, \<open>-0\<close>, \<open>0\<close> and \<open>1\<close> are closed under multiplication, a product
  with a zero among them is a zero, and adding a zero to \<open>-1\<close> or \<open>1\<close> changes nothing.
\<close>

lemma zeros_units: "x \<in> zeros \<Longrightarrow> x \<in> units"
  by (auto simp: zeros_def units_def)

lemma num_unit_mul:
  assumes "x \<in> units" and "y \<in> units"
  shows "num_mul x y \<in> units"
    and "x \<in> zeros \<or> y \<in> zeros \<Longrightarrow> num_mul x y \<in> zeros"
    and "x = Fin 1 \<Longrightarrow> num_mul x y = y"
  using assms round_double_small by (auto simp: units_def zeros_def)

lemma num_unit_add:
  assumes "x \<in> units" and "z \<in> zeros"
  shows "x \<notin> zeros \<Longrightarrow> num_add x z = x"
    and "x \<notin> zeros \<Longrightarrow> num_add z x = x"
    and "x \<in> zeros \<Longrightarrow> num_add x z \<in> zeros"
  using assms round_double_small by (auto simp: units_def zeros_def)

lemma sign_unit: "sign j \<in> units"
  by (simp add: sign_def units_def)

lemma foldl_single:
  assumes "\<forall>k < n. t k \<in> units"
    and "\<forall>k < n. k \<noteq> i \<longrightarrow> t k \<in> zeros"
    and "0 < n"
  shows "(i < n \<and> t i \<notin> zeros \<longrightarrow> foldl num_add (t 0) (map t [1..<n]) = t i) \<and>
         (\<not> (i < n \<and> t i \<notin> zeros) \<longrightarrow> foldl num_add (t 0) (map t [1..<n]) \<in> zeros)"
  using assms
proof (induction n)
  case 0
  then show ?case by simp
next
  case (Suc n)
  show ?case
  proof (cases "n = 0")
    case True
    with Suc.prems show ?thesis by auto
  next
    case False
    then have n: "0 < n" by simp
    let ?S = "foldl num_add (t 0) (map t [1..<n])"
    have IH: "(i < n \<and> t i \<notin> zeros \<longrightarrow> ?S = t i) \<and> (\<not> (i < n \<and> t i \<notin> zeros) \<longrightarrow> ?S \<in> zeros)"
      using Suc.IH Suc.prems(1,2) n by simp
    have tn: "t n \<in> units" using Suc.prems(1) by simp
    have step: "foldl num_add (t 0) (map t [1..<Suc n]) = num_add ?S (t n)"
      using n by simp
    show ?thesis
    proof (cases "i < n \<and> t i \<notin> zeros")
      case True
      then have S: "?S = t i" using IH by simp
      have "t n \<in> zeros" using Suc.prems(2) True by simp
      moreover have "t i \<in> units" using Suc.prems(1) True by simp
      ultimately have "num_add (t i) (t n) = t i" using True by (simp add: num_unit_add(1))
      then have "num_add ?S (t n) = t i" using S by simp
      moreover have "i < Suc n \<and> t i \<notin> zeros" using True by simp
      ultimately show ?thesis unfolding step by blast
    next
      case notlt: False
      then have S: "?S \<in> zeros" using IH by simp
      show ?thesis
      proof (cases "i = n \<and> t n \<notin> zeros")
        case True
        have "num_add ?S (t n) = t n"
          using num_unit_add(2) [OF tn S] True by simp
        then have "num_add ?S (t n) = t i" using True by simp
        moreover have "i < Suc n \<and> t i \<notin> zeros" using True by simp
        ultimately show ?thesis unfolding step by blast
      next
        case False
        have z: "t n \<in> zeros"
        proof (cases "i = n")
          case True
          with False show ?thesis by simp
        next
          case False
          then show ?thesis using Suc.prems(2) by simp
        qed
        have "num_add ?S (t n) \<in> zeros"
          using num_unit_add(3) [OF zeros_units [OF S] z] S by simp
        moreover have "\<not> (i < Suc n \<and> t i \<notin> zeros)"
          using notlt False by (auto simp: less_Suc_eq)
        ultimately show ?thesis unfolding step by blast
      qed
    qed
  qed
qed

lemma unit_rows_square_matrix: "unit_rows A \<Longrightarrow> square_matrix A"
  unfolding unit_rows_def unit_row_def square_matrix_def numeric_def
  by (metis is_number.simps(1))

lemma unit_row_delete_at:
  assumes "unit_row r" and "c < length r"
  shows "unit_row (delete_at c r)"
proof -
  from assms(1) obtain i where
    cells: "\<forall>x \<in> set r. x = Num (Fin 0) \<or> x = Num (Fin 1)" and
    i: "\<forall>k < length r. k \<noteq> i \<longrightarrow> r ! k = Num (Fin 0)"
    by (auto simp: unit_row_def)
  have "\<forall>x \<in> set (delete_at c r). x = Num (Fin 0) \<or> x = Num (Fin 1)"
    using cells set_delete_at [of c r] by auto
  moreover have "\<forall>k < length (delete_at c r).
      k \<noteq> (if i < c then i else i - 1) \<longrightarrow> delete_at c r ! k = Num (Fin 0)"
    using i assms(2) by (auto simp: length_delete_at nth_delete_at)
  ultimately show ?thesis unfolding unit_row_def by blast
qed

lemma unit_rows_minor:
  assumes "unit_rows A" and "r < MatrixSquare_size A" and "c < MatrixSquare_size A"
  shows "unit_rows (Matrix MatrixSquareClass (map (delete_at c) (delete_at r (DATA A))))"
proof -
  have sq: "square_matrix A" using assms(1) by (rule unit_rows_square_matrix)
  have "is_square (Matrix MatrixSquareClass (map (delete_at c) (delete_at r (DATA A))))"
    using square_matrix_minor(2) [OF sq assms(2,3)] by (simp add: square_matrix_def)
  moreover have "unit_row (delete_at c x)" if "x \<in> set (delete_at r (DATA A))" for x
  proof -
    from that have x: "x \<in> set (DATA A)" using set_delete_at [of r "DATA A"] by auto
    then have "unit_row x" using assms(1) by (simp add: unit_rows_def)
    moreover have "c < length x"
      using square_matrixD(4) [OF sq x] assms(3) by (simp add: MatrixSquare_size_def)
    ultimately show ?thesis by (rule unit_row_delete_at)
  qed
  ultimately show ?thesis by (simp add: unit_rows_def)
qed

lemma unit_rows_row0:
  assumes "unit_rows A" and "0 < MatrixSquare_size A"
  shows "unit_row (DATA A ! 0)" and "length (DATA A ! 0) = MatrixSquare_size A"
proof -
  have "DATA A ! 0 \<in> set (DATA A)"
    using assms(2) by (simp add: MatrixSquare_size_def height_def)
  then show "unit_row (DATA A ! 0)" and "length (DATA A ! 0) = MatrixSquare_size A"
    using assms(1) by (simp_all add: unit_rows_def is_square_def MatrixSquare_size_def)
qed

lemma unit_row_nth:
  "unit_row r \<Longrightarrow> k < length r \<Longrightarrow> r ! k = Num (Fin 0) \<or> r ! k = Num (Fin 1)"
  by (simp add: unit_row_def)

lemma cofactor_term_unit:
  assumes "c = Num (Fin 0) \<or> c = Num (Fin 1)" and "d \<in> units"
  shows "num_mul (num_mul (sign k) (ToNumber c)) d \<in> units"
    and "c = Num (Fin 0) \<Longrightarrow> num_mul (num_mul (sign k) (ToNumber c)) d \<in> zeros"
proof -
  have c: "ToNumber c \<in> units" using assms(1) by (auto simp: units_def)
  have sc: "num_mul (sign k) (ToNumber c) \<in> units"
    by (rule num_unit_mul(1) [OF sign_unit c])
  show "num_mul (num_mul (sign k) (ToNumber c)) d \<in> units"
    by (rule num_unit_mul(1) [OF sc assms(2)])
  show "num_mul (num_mul (sign k) (ToNumber c)) d \<in> zeros" if "c = Num (Fin 0)"
  proof -
    have "ToNumber c \<in> zeros" using that by (simp add: zeros_def)
    then have "num_mul (sign k) (ToNumber c) \<in> zeros"
      using num_unit_mul(2) [OF sign_unit c] by simp
    then show ?thesis using num_unit_mul(2) [OF sc assms(2)] by simp
  qed
qed

lemma det_unit_rows:
  assumes "unit_rows A" and "MatrixSquare_size A = n" and "0 < n"
  shows "\<exists>d \<in> units. det A = Inr (Num d)"
  using assms
proof (induction n arbitrary: A)
  case 0
  then show ?case by simp
next
  case (Suc n)
  have sq: "square_matrix A" using Suc.prems(1) by (rule unit_rows_square_matrix)
  have pos: "0 < MatrixSquare_size A" using Suc.prems(2) by simp
  note row0 = unit_rows_row0 [OF Suc.prems(1) pos]
  show ?case
  proof (cases "n = 0")
    case True
    have "DATA A ! 0 ! 0 = Num (Fin 0) \<or> DATA A ! 0 ! 0 = Num (Fin 1)"
      using unit_row_nth [OF row0(1), of 0] row0(2) pos by simp
    moreover have "det A = Inr (DATA A ! 0 ! 0)"
      using True Suc.prems(2) row0(2) square_matrixD(3) [OF sq] calculation
      by (auto simp: det.simps [of A] MatrixSquare_size_def Matrix_at_def get_def)
    ultimately show ?thesis by (auto simp: units_def)
  next
    case False
    then have n: "0 < n" by simp
    have det: "det A = Inr (Num (cofactor_expansion A))"
      using det_square_matrix [OF sq Suc.prems(2)] n by simp
    have md: "minor_det A k \<in> units" if "k < Suc n" for k
    proof -
      have k: "k < MatrixSquare_size A" using that Suc.prems(2) by simp
      let ?M = "Matrix MatrixSquareClass (map (delete_at k) (delete_at 0 (DATA A)))"
      have m: "MatrixSquare_minor A 0 (int k) = Inr ?M" "MatrixSquare_size ?M = n"
        using square_matrix_minor(1,3) [OF sq pos k] Suc.prems(2) by simp_all
      have "unit_rows ?M" by (rule unit_rows_minor [OF Suc.prems(1) pos k])
      from Suc.IH [OF this m(2) n] obtain d where
        "d \<in> units" "det ?M = Inr (Num d)" by blast
      then show ?thesis using m(1) by (simp add: minor_det_def)
    qed
    from row0(1) obtain i where
      i: "\<forall>k < length (DATA A ! 0). k \<noteq> i \<longrightarrow> DATA A ! 0 ! k = Num (Fin 0)"
      by (auto simp: unit_row_def)
    have t: "\<forall>k < Suc n. cofactor_term A k \<in> units"
      using cofactor_term_unit(1) [OF unit_row_nth [OF row0(1)] md] row0(2) Suc.prems(2)
      by (simp add: cofactor_term_sign)
    have z: "\<forall>k < Suc n. k \<noteq> i \<longrightarrow> cofactor_term A k \<in> zeros"
    proof (intro allI impI)
      fix k assume k: "k < Suc n" "k \<noteq> i"
      then have c: "DATA A ! 0 ! k = Num (Fin 0)" using i row0(2) Suc.prems(2) by simp
      show "cofactor_term A k \<in> zeros"
        using cofactor_term_unit(2) [OF _ md [OF k(1)], of "DATA A ! 0 ! k" k] c
        by (simp add: cofactor_term_sign)
    qed
    have "(i < Suc n \<and> cofactor_term A i \<notin> zeros \<longrightarrow>
             cofactor_expansion A = cofactor_term A i) \<and>
          (\<not> (i < Suc n \<and> cofactor_term A i \<notin> zeros) \<longrightarrow> cofactor_expansion A \<in> zeros)"
      unfolding cofactor_expansion_def Suc.prems(2)
      by (rule foldl_single [OF t z]) simp
    then have "cofactor_expansion A \<in> units"
      using t zeros_units by (cases "i < Suc n \<and> cofactor_term A i \<notin> zeros") auto
    with det show ?thesis by blast
  qed
qed

section \<open>The identity matrix\<close>

lemma length_identity_grid [simp]: "length (identity_grid n) = n"
  by (simp add: identity_grid_def)

lemma nth_identity_grid:
  "i < n \<Longrightarrow> identity_grid n ! i = map (\<lambda>j. if i = j then Num (Fin 1) else Num (Fin 0)) [0..<n]"
  by (simp add: identity_grid_def)

lemma unit_rows_identity: "unit_rows (Matrix MatrixSquareClass (identity_grid n))"
proof -
  have "unit_row (map (\<lambda>j. if i = j then Num (Fin 1) else Num (Fin 0)) [0..<n])" for i :: nat
    unfolding unit_row_def by (auto intro: exI [of _ i])
  then show ?thesis
    by (auto simp: unit_rows_def is_square_def height_def identity_grid_def)
qed

lemma size_identity [simp]: "MatrixSquare_size (Matrix MatrixSquareClass (identity_grid n)) = n"
  by (simp add: MatrixSquare_size_def height_def)

lemma identity_grid_minor:
  "map (delete_at 0) (delete_at 0 (identity_grid (Suc n))) = identity_grid n"
proof -
  have "delete_at 0 (identity_grid (Suc n))
          = map (\<lambda>i. map (\<lambda>j. if i = j then Num (Fin 1) else Num (Fin 0)) [0..<Suc n])
                [Suc 0..<Suc n]"
    by (simp add: delete_at_def identity_grid_def upt_conv_Cons del: upt_Suc)
  also have "\<dots> = map (\<lambda>i. map (\<lambda>j. if Suc i = j then Num (Fin 1) else Num (Fin 0)) [0..<Suc n])
                       [0..<n]"
    by (simp add: map_Suc_upt [symmetric] del: upt_Suc)
  finally have "map (delete_at 0) (delete_at 0 (identity_grid (Suc n)))
      = map (\<lambda>i. delete_at 0 (map (\<lambda>j. if Suc i = j then Num (Fin 1) else Num (Fin 0))
                                   [0..<Suc n])) [0..<n]"
    by simp
  also have "\<dots> = map (\<lambda>i. map (\<lambda>j. if i = j then Num (Fin 1) else Num (Fin 0)) [0..<n]) [0..<n]"
  proof -
    have "delete_at 0 (map (\<lambda>j. if Suc i = j then Num (Fin 1) else Num (Fin 0)) [0..<Suc n])
            = map (\<lambda>j. if i = j then Num (Fin 1) else Num (Fin 0)) [0..<n]" for i :: nat
    proof -
      have "delete_at 0 (map (\<lambda>j. if Suc i = j then Num (Fin 1) else Num (Fin 0)) [0..<Suc n])
            = map (\<lambda>j. if Suc i = j then Num (Fin 1) else Num (Fin 0)) [Suc 0..<Suc n]"
        by (simp add: delete_at_def upt_conv_Cons del: upt_Suc)
      also have "\<dots> = map (\<lambda>j. if i = j then Num (Fin 1) else Num (Fin 0)) [0..<n]"
        by (simp add: map_Suc_upt [symmetric] del: upt_Suc)
      finally show ?thesis .
    qed
    then show ?thesis by simp
  qed
  finally show ?thesis by (simp add: identity_grid_def)
qed

lemma det_identity: "det (Matrix MatrixSquareClass (identity_grid (Suc n))) = Inr (Num (Fin 1))"
proof (induction n)
  case 0
  show ?case
    by (simp add: det.simps identity_grid_def MatrixSquare_size_def height_def width_def
        Matrix_at_def get_def)
next
  case (Suc n)
  let ?A = "Matrix MatrixSquareClass (identity_grid (Suc (Suc n)))"
  have u: "unit_rows ?A" by (rule unit_rows_identity)
  have sq: "square_matrix ?A" using u by (rule unit_rows_square_matrix)
  have size: "MatrixSquare_size ?A = Suc (Suc n)" by simp
  have pos: "0 < MatrixSquare_size ?A" by simp
  have det: "det ?A = Inr (Num (cofactor_expansion ?A))"
    using det_square_matrix [OF sq size] by simp
  have minor: "MatrixSquare_minor ?A 0 (int k)
                 = Inr (Matrix MatrixSquareClass (map (delete_at k) (delete_at 0 (identity_grid (Suc (Suc n))))))"
    if "k < Suc (Suc n)" for k
    using square_matrix_minor(1) [OF sq pos, of k] that by simp
  have md: "minor_det ?A k \<in> units" if "k < Suc (Suc n)" for k
  proof -
    let ?M = "Matrix MatrixSquareClass (map (delete_at k) (delete_at 0 (DATA ?A)))"
    have k: "k < MatrixSquare_size ?A" using that by simp
    have "unit_rows ?M" by (rule unit_rows_minor [OF u pos k])
    moreover have "MatrixSquare_size ?M = Suc n"
      using square_matrix_minor(3) [OF sq pos k] by simp
    ultimately obtain d where "d \<in> units" "det ?M = Inr (Num d)"
      using det_unit_rows [of ?M "Suc n"] by blast
    then show ?thesis using minor [OF that] by (simp add: minor_det_def)
  qed
  have row0: "DATA ?A ! 0 ! k = (if k = 0 then Num (Fin 1) else Num (Fin 0))"
    if "k < Suc (Suc n)" for k
    using that by (simp add: nth_identity_grid del: upt_Suc)
  have t: "\<forall>k < Suc (Suc n). cofactor_term ?A k \<in> units"
    using cofactor_term_unit(1) [OF _ md] row0 by (simp add: cofactor_term_sign)
  have z: "\<forall>k < Suc (Suc n). k \<noteq> 0 \<longrightarrow> cofactor_term ?A k \<in> zeros"
    using cofactor_term_unit(2) [OF _ md] row0 by (simp add: cofactor_term_sign)
  have t0: "cofactor_term ?A 0 = Fin 1"
  proof -
    have "minor_det ?A 0 = Fin 1"
      using minor [of 0] Suc.IH by (simp add: minor_det_def identity_grid_minor)
    then show ?thesis
      using row0 [of 0] round_double_small by (simp add: cofactor_term_def)
  qed
  have "(0 < Suc (Suc n) \<and> cofactor_term ?A 0 \<notin> zeros \<longrightarrow>
           cofactor_expansion ?A = cofactor_term ?A 0) \<and>
        (\<not> (0 < Suc (Suc n) \<and> cofactor_term ?A 0 \<notin> zeros) \<longrightarrow>
           cofactor_expansion ?A \<in> zeros)"
    unfolding cofactor_expansion_def size
    by (rule foldl_single [OF t z]) simp
  then have "cofactor_expansion ?A = Fin 1"
    using t0 by (simp add: zeros_def)
  then show ?case using det by simp
qed

lemma multIden_identity:
  assumes "0 \<le> n" and "n < 2 ^ 32"
  shows "multIden n = Inr (Matrix MatrixSquareClass (identity_grid (nat n)))"
proof -
  have "map (resize_row (nat n)) (identity_grid (nat n)) = identity_grid (nat n)"
    by (rule map_idI) (auto simp: identity_grid_def resize_row_id)
  then show ?thesis
    using assms
    by (simp add: multIden_def new_MatrixSquare_def new_Matrix_def Matrix_constructor_def Let_def o_def
        identity_grid_def)
qed

text \<open>
  C8: for every size \<open>n\<close> from \<open>1\<close> up to the greatest array length,
  \<^verbatim>\<open>multIden(n)\<close> is a MatrixSquare of size \<open>n\<close> whose determinant is \<open>1\<close>; the
  determinant of \<^verbatim>\<open>multIden(0)\<close>, the empty matrix, throws the TypeError of an undefined
  determinant.
\<close>

theorem det_multIden:
  "(0 < n \<and> n < 2 ^ 32 \<longrightarrow>
      (\<exists>A. multIden n = Inr A \<and> MatrixSquare_size A = nat n \<and> det A = Inr (Num (Fin 1)))) \<and>
   (\<exists>A. multIden 0 = Inr A \<and> MatrixSquare_size A = 0 \<and> det A = Inl TypeError)"
proof (intro conjI impI)
  assume n: "0 < n \<and> n < 2 ^ 32"
  then obtain k where k: "nat n = Suc k" by (cases "nat n") auto
  have "multIden n = Inr (Matrix MatrixSquareClass (identity_grid (nat n)))"
    using n by (intro multIden_identity) simp_all
  moreover have "det (Matrix MatrixSquareClass (identity_grid (nat n))) = Inr (Num (Fin 1))"
    unfolding k by (rule det_identity)
  ultimately show "\<exists>A. multIden n = Inr A \<and> MatrixSquare_size A = nat n \<and>
                      det A = Inr (Num (Fin 1))"
    by simp
next
  have "multIden 0 = Inr (Matrix MatrixSquareClass (identity_grid 0))"
    using multIden_identity [of 0] by simp
  moreover have "det (Matrix MatrixSquareClass (identity_grid 0)) = Inl TypeError"
    by (simp add: det.simps [of "Matrix MatrixSquareClass (identity_grid 0)"])
  ultimately show "\<exists>A. multIden 0 = Inr A \<and> MatrixSquare_size A = 0 \<and> det A = Inl TypeError"
    by simp
qed

theorem det_multIden_witness:
  "(0::int) < 3 \<and> (3::int) < 2 ^ 32 \<and>
   multIden 3 = Inr (Matrix MatrixSquareClass [[Num (Fin 1), Num (Fin 0), Num (Fin 0)],
                             [Num (Fin 0), Num (Fin 1), Num (Fin 0)],
                             [Num (Fin 0), Num (Fin 0), Num (Fin 1)]]) \<and>
   det (Matrix MatrixSquareClass [[Num (Fin 1), Num (Fin 0), Num (Fin 0)],
                [Num (Fin 0), Num (Fin 1), Num (Fin 0)],
                [Num (Fin 0), Num (Fin 0), Num (Fin 1)]]) = Inr (Num (Fin 1))"
proof -
  have r: "(0::int) < 3 \<and> (3::int) < 2 ^ 32" by simp
  have m: "multIden 3 = Inr (Matrix MatrixSquareClass [[Num (Fin 1), Num (Fin 0), Num (Fin 0)],
                             [Num (Fin 0), Num (Fin 1), Num (Fin 0)],
                             [Num (Fin 0), Num (Fin 0), Num (Fin 1)]])"
    by (simp add: multIden_def new_MatrixSquare_def new_Matrix_def Matrix_constructor_def Let_def resize_row_def
        set_length_def upt_conv_Cons)
  from det_multIden [of 3, THEN conjunct1, rule_format, OF r] obtain A where
    "multIden 3 = Inr A" "det A = Inr (Num (Fin 1))" by blast
  with m have "det (Matrix MatrixSquareClass [[Num (Fin 1), Num (Fin 0), Num (Fin 0)],
                [Num (Fin 0), Num (Fin 1), Num (Fin 0)],
                [Num (Fin 0), Num (Fin 0), Num (Fin 1)]]) = Inr (Num (Fin 1))" by simp
  with r m show ?thesis by (intro conjI) simp_all
qed

end
